theory Spec2Isabelle
  imports Complex_Main "HOL-Library.Sublist"
begin

section \<open>JavaScript values used by the dashboard\<close>

text \<open>
  A JavaScript string is a sequence of UTF-16 code units; a code unit is modelled by its
  number. \<open>js\<close> embeds an ASCII literal. The two glyphs the log filter looks for are
  single code units: U+2705 (check mark) and U+274C (cross mark).
\<close>

type_synonym jsstring = "nat list"

definition js :: "string \<Rightarrow> jsstring" where
  "js s = map of_char s"

definition checkmark :: jsstring where
  "checkmark = [0x2705]"

definition crossmark :: jsstring where
  "crossmark = [0x274C]"

text \<open>\<open>String.prototype.includes\<close>: the needle occurs as a contiguous run.\<close>

fun js_includes :: "'a list \<Rightarrow> 'a list \<Rightarrow> bool" where
  "js_includes [] k = (k = [])"
| "js_includes (x # xs) k = (prefix k (x # xs) \<or> js_includes xs k)"

text \<open>\<open>String.prototype.startsWith\<close> and \<open>endsWith\<close>.\<close>

definition startsWith :: "'a list \<Rightarrow> 'a list \<Rightarrow> bool" where
  "startsWith s k = prefix k s"

definition endsWith :: "'a list \<Rightarrow> 'a list \<Rightarrow> bool" where
  "endsWith s k = suffix k s"

text \<open>
  \<open>Array.prototype.slice(start, end)\<close> and \<open>String.prototype.slice\<close>: a negative index
  counts from the end, both indices are clamped to the length, and an empty range gives
  the empty list.
\<close>

definition js_slice :: "'a list \<Rightarrow> int \<Rightarrow> int \<Rightarrow> 'a list" where
  "js_slice xs start end' =
     (let len = int (length xs);
          k = (if start < 0 then max (len + start) 0 else min start len);
          final = (if end' < 0 then max (len + end') 0 else min end' len)
      in take (nat (final - k)) (drop (nat k) xs))"

section \<open>Paginated preview table\<close>

text \<open>
  \<open>Math.ceil(a / b)\<close> on a length \<open>a\<close> and a page size \<open>b\<close>. The quotient is taken in the
  reals: an array length is below \<open>2 ^ 32\<close>, where the double quotient rounds to the
  same ceiling. Every component fixes a positive page size (10, 8 or 20).
\<close>

definition Math_ceil_div :: "nat \<Rightarrow> nat \<Rightarrow> int" where
  "Math_ceil_div a b = \<lceil>real a / real b\<rceil>"

text \<open>\<open>totalPages || 1\<close>: zero is falsy.\<close>

definition or_one :: "int \<Rightarrow> int" where
  "or_one t = (if t = 0 then 1 else t)"

text \<open>
  The window of rows of a page, as all three preview tables compute it:
  \<open>startIndex = (currentPage - 1) * itemsPerPage\<close>,
  \<open>products.slice(startIndex, startIndex + itemsPerPage)\<close>.
\<close>

definition startIndex :: "nat \<Rightarrow> int \<Rightarrow> int" where
  "startIndex itemsPerPage currentPage = (currentPage - 1) * int itemsPerPage"

definition currentProducts :: "nat \<Rightarrow> 'row list \<Rightarrow> int \<Rightarrow> 'row list" where
  "currentProducts itemsPerPage products currentPage =
     js_slice products (startIndex itemsPerPage currentPage)
       (startIndex itemsPerPage currentPage + int itemsPerPage)"

text \<open>
  The positions in the whole list of the rows that a page shows: the window is taken,
  by the same code, of the list whose rows carry their positions.
\<close>

definition pageIndices :: "nat \<Rightarrow> 'row list \<Rightarrow> int \<Rightarrow> nat set" where
  "pageIndices itemsPerPage products currentPage =
     fst ` set (currentProducts itemsPerPage (enumerate 0 products) currentPage)"

text \<open>
  A rendered table row: its React key, the number shown in the \<open>#\<close> cell, and the row
  record that fills the other cells.
\<close>

record 'row table_row =
  row_key :: int
  row_number :: int
  row_data :: 'row

subsection \<open>CSVPreviewTable (admin dashboard)\<close>

text \<open>
  \<open>currentProducts.map((row, idx) => ...)\<close>: the key is \<open>startIndex + idx\<close>, the \<open>#\<close> cell
  shows \<open>startIndex + idx + 1\<close>.
\<close>

definition CSVPreviewTable_rows :: "nat \<Rightarrow> 'row list \<Rightarrow> int \<Rightarrow> 'row table_row list" where
  "CSVPreviewTable_rows itemsPerPage products currentPage =
     map (\<lambda>(idx, row).
            \<lparr> row_key = startIndex itemsPerPage currentPage + int idx,
              row_number = startIndex itemsPerPage currentPage + int idx + 1,
              row_data = row \<rparr>)
       (enumerate 0 (currentProducts itemsPerPage products currentPage))"

record 'row preview_view =
  pv_rows :: "'row table_row list"
  pv_page :: int
  pv_pageCount :: int
  pv_prevDisabled :: bool
  pv_nextDisabled :: bool

text \<open>
  The component returns \<open>null\<close> (here \<open>None\<close>) when \<open>products\<close> is missing or empty;
  otherwise it renders the window, the label \<open>Page {currentPage} of {totalPages || 1}\<close>
  and the two buttons with their \<open>disabled\<close> flags.
\<close>

definition CSVPreviewTable_render ::
  "nat \<Rightarrow> 'row list option \<Rightarrow> int \<Rightarrow> 'row preview_view option" where
  "CSVPreviewTable_render itemsPerPage products currentPage =
     (case products of
        None \<Rightarrow> None
      | Some ps \<Rightarrow>
          if length ps = 0 then None
          else
            let totalPages = Math_ceil_div (length ps) itemsPerPage
            in Some \<lparr> pv_rows = CSVPreviewTable_rows itemsPerPage ps currentPage,
                      pv_page = currentPage,
                      pv_pageCount = or_one totalPages,
                      pv_prevDisabled = (currentPage = 1),
                      pv_nextDisabled = (currentPage = totalPages \<or> totalPages = 0) \<rparr>)"

definition CSVPreviewTable_itemsPerPage :: nat where
  "CSVPreviewTable_itemsPerPage = 10"

definition CSVPreviewTable :: "'row list option \<Rightarrow> int \<Rightarrow> 'row preview_view option" where
  "CSVPreviewTable = CSVPreviewTable_render CSVPreviewTable_itemsPerPage"

text \<open>\<open>handlePrev\<close> and \<open>handleNext\<close>: the state updates, clamped to \<open>[1, totalPages]\<close>.\<close>

definition handlePrev :: "int \<Rightarrow> int" where
  "handlePrev prev = max 1 (prev - 1)"

definition handleNext :: "int \<Rightarrow> int \<Rightarrow> int" where
  "handleNext totalPages prev = min totalPages (prev + 1)"

text \<open>A click on a button: a disabled button does not run its handler.\<close>

definition clickPrev :: "int \<Rightarrow> int" where
  "clickPrev page = (if page = 1 then page else handlePrev page)"

definition clickNext :: "int \<Rightarrow> int \<Rightarrow> int" where
  "clickNext totalPages page =
     (if page = totalPages \<or> totalPages = 0 then page else handleNext totalPages page)"

subsection \<open>Preview table of the upload workflow (UploadCSVPublic, Index)\<close>

text \<open>
  UploadCSVPublic pages \<open>allProducts\<close> the same way and hands the result to a
  \<open>Pagination\<close> control: \<open>hasPrevious = currentPage > 1\<close>,
  \<open>hasNext = currentPage < totalPages\<close>, the label \<open>Page {currentPage} of {totalPages}\<close>,
  and the updates \<open>p - 1\<close> and \<open>p + 1\<close>. The table is shown once an upload has
  succeeded, also when the upload holds no rows. The component Index of the embedded
  route has the same code with 8 rows a page; the definitions named after
  UploadCSVPublic stand for both.
\<close>

text \<open>
  \<open>rowMarkup = currentData.map((row, index) => ...)\<close>, where \<open>currentData\<close> is the window of
  \<open>allProducts\<close>: the row's \<open>id\<close>, \<open>key\<close> and \<open>position\<close> are the index within the page,
  the \<open>#\<close> cell shows \<open>startIndex + index + 1\<close>.
\<close>

definition rowMarkup :: "nat \<Rightarrow> 'row list \<Rightarrow> int \<Rightarrow> 'row table_row list" where
  "rowMarkup itemsPerPage allProducts currentPage =
     map (\<lambda>(index, row).
            \<lparr> row_key = int index,
              row_number = startIndex itemsPerPage currentPage + int index + 1,
              row_data = row \<rparr>)
       (enumerate 0 (currentProducts itemsPerPage allProducts currentPage))"

record 'row UploadCSVPublic_view =
  wv_rows :: "'row table_row list"
  wv_page :: int
  wv_pageCount :: int
  wv_hasPrevious :: bool
  wv_hasNext :: bool

definition UploadCSVPublic_table :: "nat \<Rightarrow> 'row list \<Rightarrow> int \<Rightarrow> 'row UploadCSVPublic_view" where
  "UploadCSVPublic_table itemsPerPage allProducts currentPage =
     (let totalPages = Math_ceil_div (length allProducts) itemsPerPage
      in \<lparr> wv_rows = rowMarkup itemsPerPage allProducts currentPage,
           wv_page = currentPage,
           wv_pageCount = totalPages,
           wv_hasPrevious = (currentPage > 1),
           wv_hasNext = (currentPage < totalPages) \<rparr>)"

definition UploadCSVPublic_itemsPerPage :: nat where
  "UploadCSVPublic_itemsPerPage = 10"

definition Index_itemsPerPage :: nat where
  "Index_itemsPerPage = 8"

definition onPrevious :: "int \<Rightarrow> int" where
  "onPrevious p = p - 1"

definition onNext :: "int \<Rightarrow> int" where
  "onNext p = p + 1"

text \<open>
  A press on the \<open>Pagination\<close> control: without \<open>hasPrevious\<close> (or \<open>hasNext\<close>) the
  button is disabled and the update does not run.
\<close>

definition pressPrevious :: "int \<Rightarrow> int" where
  "pressPrevious p = (if p > 1 then onPrevious p else p)"

definition pressNext :: "int \<Rightarrow> int \<Rightarrow> int" where
  "pressNext totalPages p = (if p < totalPages then onNext p else p)"

subsection \<open>PriceLogsPage\<close>

text \<open>
  The price-log page pages on the server: it shows the label
  \<open>Page {page} of {totalPages || 1}\<close> with \<open>totalPages = Math.ceil(total / limit)\<close>,
  \<open>limit = 20\<close>, and the same clamped updates and \<open>disabled\<close> flags as CSVPreviewTable.
\<close>

definition PriceLogsPage_limit :: nat where
  "PriceLogsPage_limit = 20"

definition PriceLogsPage_totalPages :: "nat \<Rightarrow> int" where
  "PriceLogsPage_totalPages total_count = Math_ceil_div total_count PriceLogsPage_limit"

definition PriceLogsPage_label :: "nat \<Rightarrow> int" where
  "PriceLogsPage_label total_count = or_one (PriceLogsPage_totalPages total_count)"

section \<open>JSON values and \<open>JSON.parse\<close>\<close>

text \<open>
  A JSON value. A number is kept as the decimal \<open>m * 10 ^ e\<close> it is written as (mantissa
  and exponent); the double it rounds to is looked at only where the code tests a number
  for truth. An object keeps its members in source order.
\<close>

datatype json =
    JNull
  | JBool bool
  | JNumber int int
  | JString jsstring
  | JArray "json list"
  | JObject "(jsstring \<times> json) list"

text \<open>
  \<open>JSON.parse\<close> is a recursive-descent parser over the code units of the text, after
  the JSON grammar (ECMA-404): white space, the literals, numbers, strings with their
  escapes, arrays and objects. Nesting is followed with fuel; \<open>PFuel\<close> is never
  returned at the fuel \<open>JSON_parse\<close> gives (lemma \<open>JSON_parse_fuel\<close>), so \<open>None\<close>
  is a syntax error.
\<close>

datatype 'a presult = POk 'a | PSyntax | PFuel

definition is_ws :: "nat \<Rightarrow> bool" where
  "is_ws c \<longleftrightarrow> c = 32 \<or> c = 9 \<or> c = 10 \<or> c = 13"

fun skip_ws :: "jsstring \<Rightarrow> jsstring" where
  "skip_ws [] = []"
| "skip_ws (c # cs) = (if is_ws c then skip_ws cs else c # cs)"

definition is_digit :: "nat \<Rightarrow> bool" where
  "is_digit c \<longleftrightarrow> 48 \<le> c \<and> c \<le> 57"

definition hex_val :: "nat \<Rightarrow> nat option" where
  "hex_val c =
     (if 48 \<le> c \<and> c \<le> 57 then Some (c - 48)
      else if 97 \<le> c \<and> c \<le> 102 then Some (c - 87)
      else if 65 \<le> c \<and> c \<le> 70 then Some (c - 55)
      else None)"

definition hex4 :: "nat \<Rightarrow> nat \<Rightarrow> nat \<Rightarrow> nat \<Rightarrow> nat option" where
  "hex4 a b c d =
     (case (hex_val a, hex_val b, hex_val c, hex_val d) of
        (Some x, Some y, Some z, Some w) \<Rightarrow> Some (((x * 16 + y) * 16 + z) * 16 + w)
      | _ \<Rightarrow> None)"

definition escape_char :: "nat \<Rightarrow> nat option" where
  "escape_char e =
     (if e = 34 then Some 34
      else if e = 92 then Some 92
      else if e = 47 then Some 47
      else if e = 98 then Some 8
      else if e = 102 then Some 12
      else if e = 110 then Some 10
      else if e = 114 then Some 13
      else if e = 116 then Some 9
      else None)"

fun parse_chars :: "jsstring \<Rightarrow> jsstring \<Rightarrow> (jsstring \<times> jsstring) option" where
  "parse_chars acc [] = None"
| "parse_chars acc [c] = (if c = 34 then Some (rev acc, []) else None)"
| "parse_chars acc (c # e # es) =
     (if c = 34 then Some (rev acc, e # es)
      else if c = 92 then
        (if e = 117 then
           (case es of
              h1 # h2 # h3 # h4 # r \<Rightarrow>
                (case hex4 h1 h2 h3 h4 of
                   Some u \<Rightarrow> parse_chars (u # acc) r
                 | None \<Rightarrow> None)
            | _ \<Rightarrow> None)
         else
           (case escape_char e of
              Some u \<Rightarrow> parse_chars (u # acc) es
            | None \<Rightarrow> None))
      else if c < 32 then None
      else parse_chars (c # acc) (e # es))"

definition digits_val :: "jsstring \<Rightarrow> nat" where
  "digits_val ds = foldl (\<lambda>a d. 10 * a + (d - 48)) 0 ds"

definition opt_minus :: "jsstring \<Rightarrow> bool \<times> jsstring" where
  "opt_minus s = (case s of c # cs \<Rightarrow> if c = 45 then (True, cs) else (False, s) | [] \<Rightarrow> (False, []))"

definition opt_sign :: "jsstring \<Rightarrow> bool \<times> jsstring" where
  "opt_sign s =
     (case s of
        c # cs \<Rightarrow> if c = 45 then (True, cs) else if c = 43 then (False, cs) else (False, s)
      | [] \<Rightarrow> (False, []))"

definition parse_int_part :: "jsstring \<Rightarrow> (jsstring \<times> jsstring) option" where
  "parse_int_part s =
     (let ip = takeWhile is_digit s
      in if ip = [] \<or> (1 < length ip \<and> hd ip = 48) then None
         else Some (ip, dropWhile is_digit s))"

definition parse_frac :: "jsstring \<Rightarrow> (jsstring \<times> jsstring) option" where
  "parse_frac s =
     (case s of
        c # cs \<Rightarrow>
          if c = 46 then
            (if takeWhile is_digit cs = [] then None
             else Some (takeWhile is_digit cs, dropWhile is_digit cs))
          else Some ([], s)
      | [] \<Rightarrow> Some ([], []))"

definition parse_exp :: "jsstring \<Rightarrow> (int \<times> jsstring) option" where
  "parse_exp s =
     (case s of
        c # cs \<Rightarrow>
          if c = 101 \<or> c = 69 then
            (case opt_sign cs of
               (eneg, ds) \<Rightarrow>
                 if takeWhile is_digit ds = [] then None
                 else Some ((if eneg then - 1 else 1) * int (digits_val (takeWhile is_digit ds)),
                            dropWhile is_digit ds))
          else Some (0, s)
      | [] \<Rightarrow> Some (0, []))"

definition parse_number :: "jsstring \<Rightarrow> (json \<times> jsstring) option" where
  "parse_number s =
     (case opt_minus s of
        (neg, s1) \<Rightarrow>
          (case parse_int_part s1 of
             None \<Rightarrow> None
           | Some (ip, s2) \<Rightarrow>
               (case parse_frac s2 of
                  None \<Rightarrow> None
                | Some (fp, s3) \<Rightarrow>
                    (case parse_exp s3 of
                       None \<Rightarrow> None
                     | Some (e, s4) \<Rightarrow>
                         Some (JNumber ((if neg then - 1 else 1) * int (digits_val (ip @ fp)))
                                 (e - int (length fp)),
                               s4)))))"

definition parse_literal :: "jsstring \<Rightarrow> (json \<times> jsstring) option" where
  "parse_literal s =
     (if prefix (js ''true'') s then Some (JBool True, drop 4 s)
      else if prefix (js ''false'') s then Some (JBool False, drop 5 s)
      else if prefix (js ''null'') s then Some (JNull, drop 4 s)
      else parse_number s)"

fun parse_value :: "nat \<Rightarrow> jsstring \<Rightarrow> (json \<times> jsstring) presult"
  and parse_elems :: "nat \<Rightarrow> json list \<Rightarrow> jsstring \<Rightarrow> (json \<times> jsstring) presult"
  and parse_members :: "nat \<Rightarrow> (jsstring \<times> json) list \<Rightarrow> jsstring \<Rightarrow> (json \<times> jsstring) presult"
where
  "parse_value 0 s = PFuel"
| "parse_value (Suc n) s =
     (case skip_ws s of
        [] \<Rightarrow> PSyntax
      | c # cs \<Rightarrow>
          if c = 34 then
            (case parse_chars [] cs of
               None \<Rightarrow> PSyntax
             | Some (str, r) \<Rightarrow> POk (JString str, r))
          else if c = 91 then
            (case skip_ws cs of
               [] \<Rightarrow> PSyntax
             | d # ds \<Rightarrow> if d = 93 then POk (JArray [], ds) else parse_elems n [] (d # ds))
          else if c = 123 then
            (case skip_ws cs of
               [] \<Rightarrow> PSyntax
             | d # ds \<Rightarrow> if d = 125 then POk (JObject [], ds) else parse_members n [] (d # ds))
          else
            (case parse_literal (c # cs) of
               None \<Rightarrow> PSyntax
             | Some (v, r) \<Rightarrow> POk (v, r)))"
| "parse_elems 0 acc s = PFuel"
| "parse_elems (Suc n) acc s =
     (case parse_value n s of
        POk (v, r) \<Rightarrow>
          (case skip_ws r of
             [] \<Rightarrow> PSyntax
           | d # ds \<Rightarrow>
               if d = 44 then parse_elems n (v # acc) ds
               else if d = 93 then POk (JArray (rev (v # acc)), ds)
               else PSyntax)
      | PSyntax \<Rightarrow> PSyntax
      | PFuel \<Rightarrow> PFuel)"
| "parse_members 0 acc s = PFuel"
| "parse_members (Suc n) acc s =
     (case skip_ws s of
        [] \<Rightarrow> PSyntax
      | q # qs \<Rightarrow>
          if q \<noteq> 34 then PSyntax
          else
            (case parse_chars [] qs of
               None \<Rightarrow> PSyntax
             | Some (key, r) \<Rightarrow>
                 (case skip_ws r of
                    [] \<Rightarrow> PSyntax
                  | c # cs \<Rightarrow>
                      if c \<noteq> 58 then PSyntax
                      else
                        (case parse_value n cs of
                           POk (v, r') \<Rightarrow>
                             (case skip_ws r' of
                                [] \<Rightarrow> PSyntax
                              | d # ds \<Rightarrow>
                                  if d = 44 then parse_members n ((key, v) # acc) ds
                                  else if d = 125 then POk (JObject (rev ((key, v) # acc)), ds)
                                  else PSyntax)
                         | PSyntax \<Rightarrow> PSyntax
                         | PFuel \<Rightarrow> PFuel))))"

definition JSON_parse :: "jsstring \<Rightarrow> json option" where
  "JSON_parse text =
     (case parse_value (2 * length text + 1) text of
        POk (v, r) \<Rightarrow> if skip_ws r = [] then Some v else None
      | _ \<Rightarrow> None)"

subsection \<open>Thrown values, property reads, truthiness, string conversion\<close>

text \<open>
  What a \<open>throw\<close> or a rejected promise carries: an \<open>Error\<close> object of some class with its
  message, or (from the authentication helper) a \<open>Response\<close> with its status.
\<close>

datatype js_error =
    Error jsstring
  | TypeError jsstring
  | SyntaxError jsstring
  | RangeError jsstring
  | ThrownResponse nat

text \<open>\<open>error.message\<close>; a thrown \<open>Response\<close> has none (\<open>undefined\<close>, here \<open>None\<close>).\<close>

fun message :: "js_error \<Rightarrow> jsstring option" where
  "message (Error m) = Some m"
| "message (TypeError m) = Some m"
| "message (SyntaxError m) = Some m"
| "message (RangeError m) = Some m"
| "message (ThrownResponse st) = None"

text \<open>
  \<open>v.k\<close> on a parsed JSON value, for the keys the code reads (\<open>message\<close>, \<open>timestamp\<close>,
  \<open>detail\<close>): \<open>null\<close> throws a TypeError (wording of V8), an object gives the value of
  its last member of that name, or \<open>undefined\<close> (\<open>None\<close>); numbers, strings, booleans
  and arrays have no such property.
\<close>

definition null_read_error :: "jsstring \<Rightarrow> js_error" where
  "null_read_error k =
     TypeError (js ''Cannot read properties of null (reading '' @ [39] @ k @ [39] @ js '')'')"

fun get_prop :: "json \<Rightarrow> jsstring \<Rightarrow> js_error + json option" where
  "get_prop JNull k = Inl (null_read_error k)"
| "get_prop (JObject members) k = Inr (map_of (rev members) k)"
| "get_prop v k = Inr None"

text \<open>
  Whether the double that the decimal \<open>m * 10 ^ e\<close> rounds to is zero: the decimal is
  zero, or it is at most \<open>2 ^ -1075\<close> in absolute value, half of the least positive
  double, where rounding to nearest (ties to even) gives zero.
\<close>

definition rounds_to_zero :: "int \<Rightarrow> int \<Rightarrow> bool" where
  "rounds_to_zero m e \<longleftrightarrow> m = 0 \<or> (e < 0 \<and> \<bar>m\<bar> * 2 ^ 1075 \<le> 10 ^ nat (- e))"

text \<open>Truthiness of a value or \<open>undefined\<close>.\<close>

fun truthy :: "json option \<Rightarrow> bool" where
  "truthy None = False"
| "truthy (Some JNull) = False"
| "truthy (Some (JBool b)) = b"
| "truthy (Some (JNumber m e)) = (\<not> rounds_to_zero m e)"
| "truthy (Some (JString s)) = (s \<noteq> [])"
| "truthy (Some (JArray xs)) = True"
| "truthy (Some (JObject ms)) = True"

text \<open>
  The parts of the platform that the code calls and that depend on the locale or on
  number formatting: \<open>Number::toString\<close> of the number \<open>m * 10 ^ e\<close>, and
  \<open>new Date(t * 1000).toLocaleTimeString()\<close> of a \<open>timestamp\<close> value.
\<close>

record platform =
  numberToString :: "int \<Rightarrow> int \<Rightarrow> jsstring"
  toLocaleTimeString :: "json option \<Rightarrow> jsstring"

fun join_comma :: "jsstring list \<Rightarrow> jsstring" where
  "join_comma [] = []"
| "join_comma [x] = x"
| "join_comma (x # y # ys) = x @ [44] @ join_comma (y # ys)"

text \<open>
  \<open>String(v)\<close>, as a template literal and \<open>new Error(v)\<close> apply it: an array joins its
  elements with commas (\<open>null\<close> as the empty string), an object is
  \<open>[object Object]\<close>.
\<close>

fun ToString :: "platform \<Rightarrow> json \<Rightarrow> jsstring" where
  "ToString pf JNull = js ''null''"
| "ToString pf (JBool b) = (if b then js ''true'' else js ''false'')"
| "ToString pf (JNumber m e) = numberToString pf m e"
| "ToString pf (JString s) = s"
| "ToString pf (JArray xs) =
     join_comma (map (\<lambda>x. if x = JNull then [] else ToString pf x) xs)"
| "ToString pf (JObject ms) = js ''[object Object]''"

definition ToString_opt :: "platform \<Rightarrow> json option \<Rightarrow> jsstring" where
  "ToString_opt pf v = (case v of None \<Rightarrow> js ''undefined'' | Some x \<Rightarrow> ToString pf x)"

section \<open>Log stream consumers\<close>

text \<open>\<open>String.prototype.trim\<close> removes white space and line terminators at both ends.\<close>

definition js_is_space :: "nat \<Rightarrow> bool" where
  "js_is_space c \<longleftrightarrow>
     (9 \<le> c \<and> c \<le> 13) \<or> c = 32 \<or> c = 160 \<or> c = 0x1680
     \<or> (0x2000 \<le> c \<and> c \<le> 0x200A) \<or> c = 0x2028 \<or> c = 0x2029 \<or> c = 0x202F
     \<or> c = 0x205F \<or> c = 0x3000 \<or> c = 0xFEFF"

definition trim :: "jsstring \<Rightarrow> jsstring" where
  "trim s = rev (dropWhile js_is_space (rev (dropWhile js_is_space s)))"

subsection \<open>LogPanel (admin dashboard)\<close>

text \<open>
  The buffer holds the parsed payloads themselves. \<open>m.includes(k)\<close> on the \<open>message\<close>
  of a payload: a string searches for the substring, an array for an element equal to
  \<open>k\<close>, anything else has no callable \<open>includes\<close> and throws.
\<close>

definition message_includes :: "json option \<Rightarrow> jsstring \<Rightarrow> js_error + bool" where
  "message_includes m k =
     (case m of
        None \<Rightarrow> Inl (TypeError (js ''Cannot read properties of undefined''))
      | Some JNull \<Rightarrow> Inl (TypeError (js ''Cannot read properties of null''))
      | Some (JString s) \<Rightarrow> Inr (js_includes s k)
      | Some (JArray xs) \<Rightarrow> Inr (JString k \<in> set xs)
      | Some v \<Rightarrow> Inl (TypeError (js ''logData.message.includes is not a function'')))"

text \<open>\<open>a || b\<close> where evaluating either side may throw.\<close>

definition or_else :: "js_error + bool \<Rightarrow> js_error + bool \<Rightarrow> js_error + bool" where
  "or_else a b = (case a of Inl e \<Rightarrow> Inl e | Inr x \<Rightarrow> if x then Inr True else b)"

definition shouldShow :: "json \<Rightarrow> js_error + bool" where
  "shouldShow logData =
     (case get_prop logData (js ''message'') of
        Inl e \<Rightarrow> Inl e
      | Inr m \<Rightarrow>
          or_else (message_includes m (js ''Success''))
         (or_else (message_includes m (js ''Failed''))
         (or_else (message_includes m (js ''Error''))
         (or_else (message_includes m checkmark)
                  (message_includes m crossmark)))))"

definition LogPanel_rawData :: "jsstring \<Rightarrow> jsstring" where
  "LogPanel_rawData data =
     (if startsWith data [39] \<and> endsWith data [39] then js_slice data 1 (- 1) else data)"

text \<open>
  \<open>eventSource.onmessage\<close>: the new buffer. Every exception of the body is caught and
  only logged to the console.
\<close>

definition LogPanel_onmessage :: "json list \<Rightarrow> jsstring \<Rightarrow> json list" where
  "LogPanel_onmessage logs data =
     (if data = [] \<or> trim data = [] then logs
      else
        (case JSON_parse (LogPanel_rawData data) of
           None \<Rightarrow> logs
         | Some logData \<Rightarrow>
             (case shouldShow logData of
                Inl e \<Rightarrow> logs
              | Inr show_it \<Rightarrow> if show_it then logs @ [logData] else logs)))"

text \<open>\<open>eventSource.onopen\<close> appends a system entry stamped with \<open>Date.now()\<close>.\<close>

definition LogPanel_onopen :: "int \<Rightarrow> json list \<Rightarrow> json list" where
  "LogPanel_onopen now logs =
     logs @ [JObject [(js ''message'', JString (js ''Connected to log stream...'')),
                      (js ''level'', JString (js ''system'')),
                      (js ''timestamp'', JNumber now 0)]]"

subsection \<open>Consumer of the upload workflow (UploadCSVPublic, Index)\<close>

text \<open>
  The buffer holds formatted lines
  \<open>[${new Date(data.timestamp * 1000).toLocaleTimeString()}] ${data.message}\<close>;
  there is no filter and no quote stripping. Index has the same handlers.
\<close>

definition UploadCSVPublic_onmessage :: "platform \<Rightarrow> jsstring list \<Rightarrow> jsstring \<Rightarrow> jsstring list" where
  "UploadCSVPublic_onmessage pf logs data =
     (case JSON_parse data of
        None \<Rightarrow> logs
      | Some d \<Rightarrow>
          (case get_prop d (js ''timestamp'') of
             Inl e \<Rightarrow> logs
           | Inr ts \<Rightarrow>
               (case get_prop d (js ''message'') of
                  Inl e \<Rightarrow> logs
                | Inr m \<Rightarrow>
                    logs @ [js ''['' @ toLocaleTimeString pf ts @ js ''] '' @ ToString_opt pf m])))"

subsection \<open>The event source and the connection status\<close>

text \<open>
  The browser's \<open>EventSource\<close>, as far as the components observe it. It starts
  \<open>CONNECTING\<close>. The browser delivers \<open>open\<close> (setting \<open>OPEN\<close>; the event is given here
  with the reading of \<open>Date.now()\<close> at its delivery), \<open>message\<close>, and \<open>error\<close>: before an
  \<open>error\<close> it sets \<open>CONNECTING\<close> when it is going to reconnect by itself, \<open>CLOSED\<close> when
  it gives up. Nothing is delivered once the state is \<open>CLOSED\<close>; \<open>close()\<close> sets
  \<open>CLOSED\<close>.
\<close>

datatype readyState = CONNECTING | OPEN | CLOSED

datatype sse_event = StreamOpen int | StreamMessage jsstring | StreamError bool

record UploadCSVPublic_state =
  isConnected :: bool
  wc_logs :: "jsstring list"
  wc_readyState :: readyState

definition UploadCSVPublic_init :: UploadCSVPublic_state where
  "UploadCSVPublic_init = \<lparr> isConnected = False, wc_logs = [], wc_readyState = CONNECTING \<rparr>"

text \<open>
  The handlers of the workflow routes: \<open>onopen\<close> sets \<open>isConnected\<close>; \<open>onerror\<close> clears
  it and closes the source.
\<close>

fun UploadCSVPublic_deliver :: "platform \<Rightarrow> UploadCSVPublic_state \<Rightarrow> sse_event \<Rightarrow> UploadCSVPublic_state" where
  "UploadCSVPublic_deliver pf s (StreamOpen now) =
     (if wc_readyState s = CLOSED then s
      else s\<lparr> wc_readyState := OPEN, isConnected := True \<rparr>)"
| "UploadCSVPublic_deliver pf s (StreamMessage data) =
     (if wc_readyState s = CLOSED then s
      else s\<lparr> wc_logs := UploadCSVPublic_onmessage pf (wc_logs s) data \<rparr>)"
| "UploadCSVPublic_deliver pf s (StreamError gives_up) =
     (if wc_readyState s = CLOSED then s
      else s\<lparr> isConnected := False, wc_readyState := CLOSED \<rparr>)"

definition UploadCSVPublic_run :: "platform \<Rightarrow> UploadCSVPublic_state \<Rightarrow> sse_event list \<Rightarrow> UploadCSVPublic_state" where
  "UploadCSVPublic_run pf = foldl (UploadCSVPublic_deliver pf)"

record LogPanel_state =
  lp_logs :: "json list"
  lp_readyState :: readyState

definition LogPanel_init :: LogPanel_state where
  "LogPanel_init = \<lparr> lp_logs = [], lp_readyState = CONNECTING \<rparr>"

text \<open>
  The handlers of LogPanel: it keeps no connection status, and its \<open>onerror\<close> only
  writes to the console, so the state of the source after an error is the one the
  browser has set.
\<close>

fun LogPanel_deliver :: "LogPanel_state \<Rightarrow> sse_event \<Rightarrow> LogPanel_state" where
  "LogPanel_deliver s (StreamOpen now) =
     (if lp_readyState s = CLOSED then s
      else s\<lparr> lp_readyState := OPEN, lp_logs := LogPanel_onopen now (lp_logs s) \<rparr>)"
| "LogPanel_deliver s (StreamMessage data) =
     (if lp_readyState s = CLOSED then s
      else s\<lparr> lp_logs := LogPanel_onmessage (lp_logs s) data \<rparr>)"
| "LogPanel_deliver s (StreamError gives_up) =
     (if lp_readyState s = CLOSED then s
      else s\<lparr> lp_readyState := (if gives_up then CLOSED else CONNECTING) \<rparr>)"

definition LogPanel_run :: "LogPanel_state \<Rightarrow> sse_event list \<Rightarrow> LogPanel_state" where
  "LogPanel_run = foldl LogPanel_deliver"

section \<open>Backend gateway\<close>

text \<open>
  The environment variables the server code reads; \<open>None\<close> is an unset variable.
  A variable passes a \<open>!x\<close> check when it is set and not empty.
\<close>

record env =
  PYTHON_BACKEND_URL :: "jsstring option"
  SHOPIFY_STORE_URL :: "jsstring option"
  SHOPIFY_SHOP_URL :: "jsstring option"
  SHOPIFY_ACCESS_TOKEN :: "jsstring option"
  NEXT_PUBLIC_N8N_WEBHOOK_URL :: "jsstring option"

definition is_set :: "jsstring option \<Rightarrow> bool" where
  "is_set v = (case v of None \<Rightarrow> False | Some s \<Rightarrow> s \<noteq> [])"

text \<open>\<open>a || b\<close> on two variables.\<close>

definition env_or :: "jsstring option \<Rightarrow> jsstring option \<Rightarrow> jsstring option" where
  "env_or a b = (if is_set a then a else b)"

record upload_file =
  file_name :: jsstring
  file_size :: nat

datatype form_value = FileValue upload_file | TextValue jsstring

type_synonym form = "(jsstring \<times> form_value) list"

text \<open>
  A request body: a \<open>FormData\<close>, or the text \<open>JSON.stringify(v)\<close>, kept as the value \<open>v\<close>
  it serialises.
\<close>

datatype body = FormBody form | JsonText json

record request =
  req_url :: jsstring
  req_method :: jsstring
  req_headers :: "(jsstring \<times> jsstring) list"
  req_body :: body

text \<open>
  A response: \<open>json_body\<close> is what \<open>response.json()\<close> settles to (a rejection when the
  body is not JSON), \<open>text_body\<close> what \<open>response.text()\<close> settles to; \<open>ok\<close> is a status in
  \<open>200..299\<close>.
\<close>

record response =
  status :: nat
  statusText :: jsstring
  json_body :: "js_error + json"
  text_body :: "js_error + jsstring"

definition ok :: "response \<Rightarrow> bool" where
  "ok r \<longleftrightarrow> 200 \<le> status r \<and> status r \<le> 299"

text \<open>
  \<open>fetch\<close> is the network: it settles each request to a response or rejects. The
  operations return the requests they have issued, in order, with their outcome
  (\<open>Inl\<close> a rejection, \<open>Inr\<close> the resolved value).
\<close>

type_synonym fetch = "request \<Rightarrow> js_error + response"

text \<open>
  The non-2xx branch of both operations:
  \<open>errorData = await response.json().catch(() => ({ detail: response.statusText }))\<close>, then
  \<open>throw new Error(errorData.detail || `${fallback}${response.statusText}`)\<close>.
\<close>

definition error_of_response :: "platform \<Rightarrow> jsstring \<Rightarrow> response \<Rightarrow> js_error" where
  "error_of_response pf fallback r =
     (let errorData =
            (case json_body r of
               Inl e \<Rightarrow> JObject [(js ''detail'', JString (statusText r))]
             | Inr v \<Rightarrow> v)
      in case get_prop errorData (js ''detail'') of
           Inl e \<Rightarrow> e
         | Inr detail \<Rightarrow>
             Error (if truthy detail then ToString_opt pf detail else fallback @ statusText r))"

definition uploadCSV ::
  "platform \<Rightarrow> env \<Rightarrow> fetch \<Rightarrow> form_value \<Rightarrow> request list \<times> (js_error + json)" where
  "uploadCSV pf ev fetch file' =
     (let backendUrl = PYTHON_BACKEND_URL ev
      in if \<not> is_set backendUrl then ([], Inl (Error (js ''PYTHON_BACKEND_URL is not set'')))
         else
           let rq = \<lparr> req_url = the backendUrl @ js ''/upload'', req_method = js ''POST'',
                      req_headers = [], req_body = FormBody [(js ''file'', file')] \<rparr>
           in case fetch rq of
                Inl e \<Rightarrow> ([rq], Inl e)
              | Inr r \<Rightarrow>
                  if \<not> ok r then ([rq], Inl (error_of_response pf (js ''Upload failed: '') r))
                  else ([rq], json_body r))"

definition pushToShopify ::
  "platform \<Rightarrow> env \<Rightarrow> fetch \<Rightarrow> request list \<times> (js_error + json)" where
  "pushToShopify pf ev fetch =
     (let backendUrl = PYTHON_BACKEND_URL ev;
          shopUrl = env_or (SHOPIFY_STORE_URL ev) (SHOPIFY_SHOP_URL ev);
          accessToken = SHOPIFY_ACCESS_TOKEN ev
      in if \<not> is_set backendUrl then ([], Inl (Error (js ''PYTHON_BACKEND_URL is not set'')))
         else if \<not> is_set shopUrl then
           ([], Inl (Error (js ''SHOPIFY_STORE_URL (or SHOPIFY_SHOP_URL) is not set in .env'')))
         else if \<not> is_set accessToken then
           ([], Inl (Error (js ''SHOPIFY_ACCESS_TOKEN is not set in .env'')))
         else
           let rq = \<lparr> req_url = the backendUrl @ js ''/push-to-shopify'',
                      req_method = js ''POST'',
                      req_headers = [(js ''Content-Type'', js ''application/json'')],
                      req_body = JsonText (JObject [(js ''shop_url'', JString (the shopUrl)),
                                                    (js ''access_token'', JString (the accessToken))]) \<rparr>
           in case fetch rq of
                Inl e \<Rightarrow> ([rq], Inl e)
              | Inr r \<Rightarrow>
                  if \<not> ok r then ([rq], Inl (error_of_response pf (js ''Push failed: '') r))
                  else ([rq], json_body r))"

section \<open>Webhook proxy\<close>

text \<open>
  The incoming request of the proxy route: its \<open>content-type\<close> header (\<open>None\<close> when
  absent) and what \<open>request.formData()\<close> and \<open>request.json()\<close> settle to. The route
  answers with \<open>NextResponse.json(data, {status})\<close>.
\<close>

record proxy_request =
  content_type :: "jsstring option"
  pr_formData :: "js_error + form"
  pr_json :: "js_error + json"

record next_response =
  nr_data :: json
  nr_status :: nat

fun digit_string :: "nat \<Rightarrow> jsstring" where
  "digit_string n = (if n < 10 then [48 + n] else digit_string (n div 10) @ [48 + n mod 10])"

definition proxy_caught :: "js_error \<Rightarrow> next_response" where
  "proxy_caught e =
     \<lparr> nr_data = JObject [(js ''error'',
                  JString (case message e of
                             None \<Rightarrow> js ''Internal Server Error''
                           | Some m \<Rightarrow> if m = [] then js ''Internal Server Error'' else m))],
       nr_status = 500 \<rparr>"

text \<open>
  \<open>NextResponse.json(data, {status})\<close> constructs a \<open>Response\<close>, which throws a RangeError
  for a status outside \<open>200..599\<close> and a TypeError for a body with a status that allows
  none (wording of Node). The statuses 200 and 500 that the route passes itself are
  accepted.
\<close>

definition null_body_status :: "nat \<Rightarrow> bool" where
  "null_body_status st \<longleftrightarrow> st = 101 \<or> st = 103 \<or> st = 204 \<or> st = 205 \<or> st = 304"

definition NextResponse_json :: "json \<Rightarrow> nat \<Rightarrow> js_error + next_response" where
  "NextResponse_json data st =
     (if st < 200 \<or> 599 < st then
        Inl (RangeError (js ''init[\"status\"] must be in the range of 200 to 599, inclusive.''))
      else if null_body_status st then
        Inl (TypeError (js ''Response constructor: Invalid response status code ''
                        @ digit_string st))
      else Inr \<lparr> nr_data = data, nr_status = st \<rparr>)"

definition proxy_forward ::
  "fetch \<Rightarrow> jsstring \<Rightarrow> (jsstring \<times> jsstring) list \<Rightarrow> body \<Rightarrow> request list \<times> next_response" where
  "proxy_forward fetch n8nUrl headers payload =
     (let rq = \<lparr> req_url = n8nUrl, req_method = js ''POST'', req_headers = headers,
                 req_body = payload \<rparr>
      in case fetch rq of
           Inl e \<Rightarrow> ([rq], proxy_caught e)
         | Inr r \<Rightarrow>
             if \<not> ok r then
               (case text_body r of
                  Inl e \<Rightarrow> ([rq], proxy_caught e)
                | Inr errorText \<Rightarrow>
                    (case NextResponse_json
                            (JObject [(js ''error'',
                               JString (js ''N8n responded with '' @ digit_string (status r)
                                        @ js '': '' @ errorText))])
                            (status r) of
                       Inl e \<Rightarrow> ([rq], proxy_caught e)
                     | Inr answer \<Rightarrow> ([rq], answer)))
             else
               ([rq], \<lparr> nr_data = (case json_body r of
                                      Inl e \<Rightarrow> JObject [(js ''success'', JBool True)]
                                    | Inr d \<Rightarrow> d),
                        nr_status = 200 \<rparr>))"

text \<open>\<open>request.headers.get('content-type') || \<close>\<open>''\<close>.\<close>

definition contentType :: "proxy_request \<Rightarrow> jsstring" where
  "contentType request = (case content_type request of None \<Rightarrow> [] | Some c \<Rightarrow> c)"

definition POST :: "env \<Rightarrow> fetch \<Rightarrow> proxy_request \<Rightarrow> request list \<times> next_response" where
  "POST ev fetch request =
     (let n8nUrl = NEXT_PUBLIC_N8N_WEBHOOK_URL ev
      in if \<not> is_set n8nUrl then
           ([], \<lparr> nr_data = JObject [(js ''error'', JString (js ''N8n webhook URL not configured.''))],
                  nr_status = 500 \<rparr>)
         else if js_includes (contentType request) (js ''multipart/form-data'') then
           (case pr_formData request of
              Inl e \<Rightarrow> ([], proxy_caught e)
            | Inr formData \<Rightarrow> proxy_forward fetch (the n8nUrl) [] (FormBody formData))
         else
           (case pr_json request of
              Inl e \<Rightarrow> ([], proxy_caught e)
            | Inr v \<Rightarrow>
                proxy_forward fetch (the n8nUrl)
                  [(js ''Content-Type'', js ''application/json'')] (JsonText v)))"

section \<open>Route actions of the upload workflow\<close>

text \<open>
  What an action returns to the router: \<open>{ action?, status, message?, data?, timestamp? }\<close>.
\<close>

record action_result =
  ar_action :: "jsstring option"
  ar_status :: jsstring
  ar_message :: "jsstring option"
  ar_data :: "json option"
  ar_timestamp :: "int option"

text \<open>\<open>formData.get(name)\<close>: the first entry of that name, or \<open>null\<close>.\<close>

definition form_get :: "form \<Rightarrow> jsstring \<Rightarrow> form_value option" where
  "form_get fd name = map_of fd name"

text \<open>\<open>!file || file.size === 0\<close>: a text entry has no \<open>size\<close>.\<close>

definition no_file :: "form_value option \<Rightarrow> bool" where
  "no_file f =
     (case f of
        None \<Rightarrow> True
      | Some (TextValue s) \<Rightarrow> s = []
      | Some (FileValue fl) \<Rightarrow> file_size fl = 0)"

text \<open>
  The body of the \<open>try\<close> block, shared by both routes; \<open>stamp\<close> is the \<open>timestamp\<close> field
  that only the embedded route adds. \<open>Inl\<close> is an exception leaving the block.
\<close>

definition action_try ::
  "platform \<Rightarrow> env \<Rightarrow> fetch \<Rightarrow> int option \<Rightarrow> js_error + form \<Rightarrow> js_error + action_result" where
  "action_try pf ev fetch stamp request_formData =
     (case request_formData of
        Inl e \<Rightarrow> Inl e
      | Inr formData \<Rightarrow>
          let actionType = form_get formData (js ''actionType'')
          in if actionType = Some (TextValue (js ''upload'')) then
               (let file' = form_get formData (js ''file'')
                in if no_file file' then
                     Inr \<lparr> ar_action = Some (js ''upload''), ar_status = js ''error'',
                           ar_message = Some (js ''Please select a valid CSV file''),
                           ar_data = None, ar_timestamp = None \<rparr>
                   else
                     (case snd (uploadCSV pf ev fetch (the file')) of
                        Inl e \<Rightarrow> Inl e
                      | Inr result \<Rightarrow>
                          Inr \<lparr> ar_action = Some (js ''upload''), ar_status = js ''success'',
                                ar_message = None, ar_data = Some result,
                                ar_timestamp = stamp \<rparr>))
             else if actionType = Some (TextValue (js ''push'')) then
               (case snd (pushToShopify pf ev fetch) of
                  Inl e \<Rightarrow> Inl e
                | Inr result \<Rightarrow>
                    Inr \<lparr> ar_action = Some (js ''push''), ar_status = js ''success'',
                          ar_message = None, ar_data = Some result, ar_timestamp = stamp \<rparr>)
             else
               Inr \<lparr> ar_action = None, ar_status = js ''error'',
                     ar_message = Some (js ''Invalid action''), ar_data = None,
                     ar_timestamp = None \<rparr>)"

text \<open>\<open>catch (error) { return { status: "error", message: error.message } }\<close>.\<close>

definition action_catch :: "js_error + action_result \<Rightarrow> js_error + action_result" where
  "action_catch r =
     (case r of
        Inl error \<Rightarrow>
          Inr \<lparr> ar_action = None, ar_status = js ''error'', ar_message = message error,
                ar_data = None, ar_timestamp = None \<rparr>
      | Inr v \<Rightarrow> Inr v)"

text \<open>The action of the public route: the whole body is inside \<open>try\<close>.\<close>

definition UploadCSVPublic_action ::
  "platform \<Rightarrow> env \<Rightarrow> fetch \<Rightarrow> js_error + form \<Rightarrow> js_error + action_result" where
  "UploadCSVPublic_action pf ev fetch request_formData =
     action_catch (action_try pf ev fetch None request_formData)"

text \<open>
  The action of the embedded route awaits \<open>authenticate.admin(request)\<close> before the
  \<open>try\<close>; \<open>auth\<close> is what that call throws, if anything. \<open>now\<close> is \<open>Date.now()\<close>.
\<close>

definition Index_action ::
  "platform \<Rightarrow> env \<Rightarrow> fetch \<Rightarrow> int \<Rightarrow> js_error option \<Rightarrow> js_error + form
     \<Rightarrow> js_error + action_result" where
  "Index_action pf ev fetch now auth request_formData =
     (case auth of
        Some thrown \<Rightarrow> Inl thrown
      | None \<Rightarrow> action_catch (action_try pf ev fetch (Some now) request_formData))"

section \<open>Facts about paging\<close>

lemma Math_ceil_div_upper:
  assumes "0 < b"
  shows "int a \<le> Math_ceil_div a b * int b"
proof -
  have "real a / real b \<le> of_int (Math_ceil_div a b)"
    unfolding Math_ceil_div_def by (rule le_of_int_ceiling)
  then have "real a \<le> of_int (Math_ceil_div a b) * real b"
    using assms by (simp add: pos_divide_le_eq)
  then have "real_of_int (int a) \<le> real_of_int (Math_ceil_div a b * int b)"
    by simp
  then show ?thesis by (simp only: of_int_le_iff)
qed

lemma Math_ceil_div_lower:
  assumes "0 < b"
  shows "(Math_ceil_div a b - 1) * int b < int a"
proof -
  have "of_int (Math_ceil_div a b) - 1 < real a / real b"
    unfolding Math_ceil_div_def by linarith
  then have "(of_int (Math_ceil_div a b) - 1) * real b < real a"
    using assms by (simp add: pos_less_divide_eq)
  then have "real_of_int ((Math_ceil_div a b - 1) * int b) < real_of_int (int a)"
    by simp
  then show ?thesis by (simp only: of_int_less_iff)
qed

lemma Math_ceil_div_zero: "Math_ceil_div 0 b = 0"
  by (simp add: Math_ceil_div_def)

lemma Math_ceil_div_nonneg: "0 \<le> Math_ceil_div a b"
proof -
  have "0 \<le> real a / real b" by simp
  then have "(0::int) \<le> \<lceil>real a / real b\<rceil>"
    unfolding zero_le_ceiling by linarith
  then show ?thesis by (simp only: Math_ceil_div_def)
qed

lemma Math_ceil_div_pos:
  assumes "0 < b" and "0 < a"
  shows "1 \<le> Math_ceil_div a b"
proof (rule ccontr)
  assume "\<not> 1 \<le> Math_ceil_div a b"
  then have "Math_ceil_div a b \<le> 0" by simp
  then have "Math_ceil_div a b * int b \<le> 0"
    by (simp add: mult_le_0_iff)
  with Math_ceil_div_upper [OF assms(1), of a] assms(2) show False by simp
qed

lemma or_one_ceil: "or_one (Math_ceil_div a b) = max 1 (Math_ceil_div a b)"
  using Math_ceil_div_nonneg [of a b] by (simp add: or_one_def max_def)

lemma startIndex_nonneg: "1 \<le> page \<Longrightarrow> 0 \<le> startIndex P page"
  by (simp add: startIndex_def)

lemma currentProducts_take_drop:
  assumes "1 \<le> page"
  shows "currentProducts P rows page = take P (drop (nat (startIndex P page)) rows)"
proof -
  let ?s = "startIndex P page"
  have s: "0 \<le> ?s" using assms by (rule startIndex_nonneg)
  show ?thesis
  proof (cases "?s \<le> int (length rows)")
    case True
    then have "nat (min (?s + int P) (int (length rows)) - ?s) = min P (length rows - nat ?s)"
      using s by (simp add: min_def) linarith
    then show ?thesis
      using s True by (simp add: currentProducts_def js_slice_def Let_def min_def)
  next
    case False
    then show ?thesis
      using s by (simp add: currentProducts_def js_slice_def Let_def min_def)
  qed
qed

lemma valid_page_start:
  assumes "0 < P" and "1 \<le> page" and "page \<le> max 1 (Math_ceil_div (length rows) P)"
  shows "startIndex P page \<le> int (length rows)"
proof (cases "page = 1")
  case True
  then show ?thesis by (simp add: startIndex_def)
next
  case False
  with assms have le: "page \<le> Math_ceil_div (length rows) P" by (simp add: max_def split: if_splits)
  have "(page - 1) * int P \<le> (Math_ceil_div (length rows) P - 1) * int P"
    using le by (intro mult_right_mono) simp_all
  also have "\<dots> < int (length rows)" using assms(1) by (rule Math_ceil_div_lower)
  finally show ?thesis by (simp add: startIndex_def)
qed

lemma length_currentProducts:
  assumes "0 < P" and "1 \<le> page" and "page \<le> max 1 (Math_ceil_div (length rows) P)"
  shows "int (length (currentProducts P rows page)) =
           min (int P) (int (length rows) - (page - 1) * int P)"
proof -
  have s: "0 \<le> startIndex P page" using assms(2) by (rule startIndex_nonneg)
  have le: "startIndex P page \<le> int (length rows)" using assms by (rule valid_page_start)
  define n where "n = nat (startIndex P page)"
  have n: "startIndex P page = int n" using s by (simp add: n_def)
  have nle: "n \<le> length rows" using le n by simp
  have "length (currentProducts P rows page) = min P (length rows - n)"
    by (simp add: currentProducts_take_drop [OF assms(2)] min.commute n_def)
  then have "int (length (currentProducts P rows page)) = min (int P) (int (length rows) - int n)"
    using nle by (simp add: min_def) linarith
  then show ?thesis using n by (simp add: startIndex_def)
qed

lemma length_currentProducts_le:
  "1 \<le> page \<Longrightarrow> length (currentProducts P rows page) \<le> P"
  by (simp add: currentProducts_take_drop)

lemma currentProducts_nth:
  assumes "1 \<le> page" and "i < length (currentProducts P rows page)"
  shows "currentProducts P rows page ! i = rows ! (nat (startIndex P page) + i)"
proof -
  have cur: "currentProducts P rows page = take P (drop (nat (startIndex P page)) rows)"
    using assms(1) by (rule currentProducts_take_drop)
  from assms(2) have "i < P" and "nat (startIndex P page) + i < length rows"
    by (simp_all add: cur) linarith
  then show ?thesis by (simp add: cur)
qed

lemma currentProducts_window:
  assumes "1 \<le> page"
  shows "currentProducts P rows page
           = map (\<lambda>k. rows ! k)
               [nat (startIndex P page) ..<
                  nat (startIndex P page) + length (currentProducts P rows page)]"
proof (rule nth_equalityI)
  show "length (currentProducts P rows page)
          = length (map (\<lambda>k. rows ! k)
              [nat (startIndex P page) ..<
                 nat (startIndex P page) + length (currentProducts P rows page)])"
    by simp
next
  fix i
  assume i: "i < length (currentProducts P rows page)"
  with assms have "currentProducts P rows page ! i = rows ! (nat (startIndex P page) + i)"
    by (rule currentProducts_nth)
  with i show "currentProducts P rows page ! i
          = map (\<lambda>k. rows ! k)
              [nat (startIndex P page) ..<
                 nat (startIndex P page) + length (currentProducts P rows page)] ! i"
    by simp
qed

lemma currentProducts_within:
  assumes "1 \<le> page" and "startIndex P page \<le> int (length rows)"
  shows "nat (startIndex P page) + length (currentProducts P rows page) \<le> length rows"
proof -
  have "nat (startIndex P page) \<le> length rows" using assms(2) by simp
  then show ?thesis by (simp add: currentProducts_take_drop [OF assms(1)])
qed

lemma currentProducts_enumerate:
  assumes "1 \<le> page"
  shows "currentProducts P (enumerate 0 rows) page
           = enumerate (nat (startIndex P page)) (currentProducts P rows page)"
proof -
  let ?n = "nat (startIndex P page)"
  have "take P (drop ?n (enumerate 0 rows)) = enumerate ?n (take P (drop ?n rows))"
  proof (rule nth_equalityI)
    show "length (take P (drop ?n (enumerate 0 rows)))
            = length (enumerate ?n (take P (drop ?n rows)))"
      by simp
  next
    fix i
    assume "i < length (take P (drop ?n (enumerate 0 rows)))"
    then have "i < P" and "?n + i < length rows" by simp_all linarith
    then show "take P (drop ?n (enumerate 0 rows)) ! i
                 = enumerate ?n (take P (drop ?n rows)) ! i"
      by (simp add: nth_enumerate_eq)
  qed
  then show ?thesis
    by (simp only: currentProducts_take_drop [OF assms])
qed

lemma pageIndices_eq:
  assumes "1 \<le> page"
  shows "pageIndices P rows page
           = {nat (startIndex P page) ..<
                nat (startIndex P page) + length (currentProducts P rows page)}"
proof -
  let ?n = "nat (startIndex P page)"
  let ?cur = "currentProducts P rows page"
  have "pageIndices P rows page = fst ` set (enumerate ?n ?cur)"
    by (simp only: pageIndices_def currentProducts_enumerate [OF assms])
  also have "\<dots> = set (map fst (enumerate ?n ?cur))" by (simp only: set_map)
  also have "\<dots> = {?n ..< ?n + length ?cur}" by (simp only: map_fst_enumerate set_upt)
  finally show ?thesis .
qed

lemma pageIndices_disjoint_less:
  assumes "1 \<le> p" and "p < q"
  shows "pageIndices P rows p \<inter> pageIndices P rows q = {}"
proof -
  have q: "1 \<le> q" using assms by simp
  have sp: "0 \<le> startIndex P p" using assms(1) by (rule startIndex_nonneg)
  have sq: "0 \<le> startIndex P q" using q by (rule startIndex_nonneg)
  have "startIndex P p + int (length (currentProducts P rows p)) \<le> startIndex P p + int P"
    using length_currentProducts_le [OF assms(1), of P rows] by simp
  also have "\<dots> = p * int P" by (simp add: startIndex_def algebra_simps)
  also have "\<dots> \<le> (q - 1) * int P" using assms(2) by (intro mult_right_mono) simp_all
  finally have "startIndex P p + int (length (currentProducts P rows p)) \<le> startIndex P q"
    by (simp add: startIndex_def)
  then have "nat (startIndex P p) + length (currentProducts P rows p) \<le> nat (startIndex P q)"
    using sp sq by linarith
  then show ?thesis
    unfolding pageIndices_eq [OF assms(1)] pageIndices_eq [OF q] by auto
qed

lemma pageIndices_disjoint:
  assumes "1 \<le> p" and "1 \<le> q" and "p \<noteq> q"
  shows "pageIndices P rows p \<inter> pageIndices P rows q = {}"
proof (cases "p < q")
  case True
  with assms(1) show ?thesis by (rule pageIndices_disjoint_less)
next
  case False
  with assms(3) have "q < p" by simp
  with assms(2) have "pageIndices P rows q \<inter> pageIndices P rows p = {}"
    by (rule pageIndices_disjoint_less)
  then show ?thesis by (simp add: Int_commute)
qed

lemma map_enumerate_nth:
  "map (\<lambda>(i, x). f i x) (enumerate 0 xs) = map (\<lambda>i. f i (xs ! i)) [0..<length xs]"
  by (rule nth_equalityI) (simp_all add: nth_enumerate_eq)

lemma CSVPreviewTable_rows_eq:
  assumes "1 \<le> page"
  shows "CSVPreviewTable_rows P rows page
           = map (\<lambda>i. \<lparr> row_key = startIndex P page + int i,
                          row_number = startIndex P page + int i + 1,
                          row_data = rows ! (nat (startIndex P page) + i) \<rparr>)
               [0..<length (currentProducts P rows page)]"
proof -
  have nth: "currentProducts P rows page ! i = rows ! (nat (startIndex P page) + i)"
    if "i < length (currentProducts P rows page)" for i
    using assms that by (rule currentProducts_nth)
  show ?thesis
    unfolding CSVPreviewTable_rows_def map_enumerate_nth
    by (rule map_cong) (simp_all add: nth)
qed

lemma rowMarkup_eq:
  assumes "1 \<le> page"
  shows "rowMarkup P rows page
           = map (\<lambda>i. \<lparr> row_key = int i,
                          row_number = startIndex P page + int i + 1,
                          row_data = rows ! (nat (startIndex P page) + i) \<rparr>)
               [0..<length (currentProducts P rows page)]"
proof -
  have nth: "currentProducts P rows page ! i = rows ! (nat (startIndex P page) + i)"
    if "i < length (currentProducts P rows page)" for i
    using assms that by (rule currentProducts_nth)
  show ?thesis
    unfolding rowMarkup_def map_enumerate_nth
    by (rule map_cong) (simp_all add: nth)
qed

section \<open>Claims about the paginated preview table\<close>

text \<open>
  C1, as the code has it. For a non-empty row list and a positive page size, the page
  count shown by CSVPreviewTable and by the workflow table is \<open>max(1, ceil(N / P))\<close>.
  For an empty row list CSVPreviewTable renders nothing at all. The price-log page shows
  \<open>max(1, ceil(total / limit))\<close> for every total, hence 1 when the total is 0.
\<close>

theorem pageCount_displayed:
  assumes "0 < P"
  shows "(rows \<noteq> [] \<longrightarrow>
            (\<exists>v. CSVPreviewTable_render P (Some rows) page = Some v
               \<and> pv_pageCount v = max 1 (Math_ceil_div (length rows) P))
            \<and> wv_pageCount (UploadCSVPublic_table P rows page) = max 1 (Math_ceil_div (length rows) P))
       \<and> CSVPreviewTable_render P (Some ([] :: 'row list)) page = None
       \<and> or_one (Math_ceil_div n P) = max 1 (Math_ceil_div n P)
       \<and> PriceLogsPage_label n = max 1 (Math_ceil_div n PriceLogsPage_limit)
       \<and> PriceLogsPage_label 0 = 1"
proof -
  have a: "rows \<noteq> [] \<longrightarrow>
            (\<exists>v. CSVPreviewTable_render P (Some rows) page = Some v
               \<and> pv_pageCount v = max 1 (Math_ceil_div (length rows) P))"
    by (simp add: CSVPreviewTable_render_def Let_def or_one_ceil)
  have b: "rows \<noteq> [] \<longrightarrow>
            wv_pageCount (UploadCSVPublic_table P rows page) = max 1 (Math_ceil_div (length rows) P)"
  proof
    assume "rows \<noteq> []"
    then have "1 \<le> Math_ceil_div (length rows) P"
      using assms by (intro Math_ceil_div_pos) simp_all
    then show "wv_pageCount (UploadCSVPublic_table P rows page) = max 1 (Math_ceil_div (length rows) P)"
      by (simp add: UploadCSVPublic_table_def Let_def)
  qed
  have c: "CSVPreviewTable_render P (Some ([] :: 'row list)) page = None"
    by (simp add: CSVPreviewTable_render_def)
  have d: "PriceLogsPage_label n = max 1 (Math_ceil_div n PriceLogsPage_limit)"
    by (simp add: PriceLogsPage_label_def PriceLogsPage_totalPages_def or_one_ceil)
  have e: "PriceLogsPage_label 0 = 1"
    by (simp add: PriceLogsPage_label_def PriceLogsPage_totalPages_def Math_ceil_div_zero or_one_def)
  from a b c d e show ?thesis by (simp add: or_one_ceil)
qed

theorem pageCount_displayed_witness:
  "(0::nat) < 10 \<and> [1..<26] \<noteq> ([] :: nat list)
   \<and> (\<exists>v. CSVPreviewTable_render 10 (Some [1..<26]) 3 = Some v \<and> pv_pageCount v = 3)
   \<and> wv_pageCount (UploadCSVPublic_table 10 [1..<26] 3) = 3
   \<and> PriceLogsPage_label 45 = 3"
  using pageCount_displayed [of 10 "[1..<26]" 3 45]
  by (auto simp add: Math_ceil_div_def PriceLogsPage_limit_def)

text \<open>
  With no rows CSVPreviewTable shows no page count, and the workflow table shows the
  count 0 (\<open>Page 1 of 0\<close>), not 1.
\<close>

theorem pageCount_empty_counterexample:
  "CSVPreviewTable (Some ([] :: nat list)) 1 = None
   \<and> wv_pageCount (UploadCSVPublic_table UploadCSVPublic_itemsPerPage ([] :: nat list) 1)
       \<noteq> max 1 (Math_ceil_div (length ([] :: nat list)) UploadCSVPublic_itemsPerPage)"
  by (simp add: CSVPreviewTable_def CSVPreviewTable_render_def UploadCSVPublic_table_def
      Math_ceil_div_def)

text \<open>
  C2. For a row list of length \<open>N\<close>, a positive page size \<open>P\<close> and a page in
  \<open>[1, max(1, ceil(N / P))]\<close>, the window has \<open>min(P, N - (page - 1) * P)\<close> rows: the rows
  of the list at the positions from \<open>(page - 1) * P\<close> on, in their order. These positions
  are the ones the page shows, and no position is shown by two different pages of that
  range, in particular not by adjacent ones. CSVPreviewTable, when there is a row at
  all, and the workflow table render one table row for each row of the window, numbered
  by its position plus one.
\<close>

theorem page_window_length_disjoint:
  assumes "0 < P" and "1 \<le> page" and "page \<le> max 1 (Math_ceil_div (length rows) P)"
  shows "int (length (currentProducts P rows page)) =
           min (int P) (int (length rows) - (page - 1) * int P)
       \<and> currentProducts P rows page
           = map (\<lambda>k. rows ! k)
               [nat (startIndex P page) ..<
                  nat (startIndex P page) + length (currentProducts P rows page)]
       \<and> nat (startIndex P page) + length (currentProducts P rows page) \<le> length rows
       \<and> pageIndices P rows page
           = {nat (startIndex P page) ..<
                nat (startIndex P page) + length (currentProducts P rows page)}
       \<and> (\<forall>q. 1 \<le> q \<and> q \<le> max 1 (Math_ceil_div (length rows) P) \<and> q \<noteq> page
              \<longrightarrow> pageIndices P rows page \<inter> pageIndices P rows q = {})
       \<and> (rows \<noteq> [] \<longrightarrow>
            (\<exists>v. CSVPreviewTable_render P (Some rows) page = Some v
               \<and> pv_rows v
                   = map (\<lambda>i. \<lparr> row_key = startIndex P page + int i,
                                  row_number = startIndex P page + int i + 1,
                                  row_data = rows ! (nat (startIndex P page) + i) \<rparr>)
                       [0..<length (currentProducts P rows page)]))
       \<and> wv_rows (UploadCSVPublic_table P rows page)
           = map (\<lambda>i. \<lparr> row_key = int i,
                          row_number = startIndex P page + int i + 1,
                          row_data = rows ! (nat (startIndex P page) + i) \<rparr>)
               [0..<length (currentProducts P rows page)]"
proof -
  note len = length_currentProducts [OF assms]
  note win = currentProducts_window [OF assms(2), of P rows]
  note within = currentProducts_within [OF assms(2) valid_page_start [OF assms]]
  note idx = pageIndices_eq [OF assms(2), of P rows]
  have disj: "\<forall>q. 1 \<le> q \<and> q \<le> max 1 (Math_ceil_div (length rows) P) \<and> q \<noteq> page
              \<longrightarrow> pageIndices P rows page \<inter> pageIndices P rows q = {}"
    using pageIndices_disjoint [OF assms(2), of _ P rows] by blast
  have csv: "rows \<noteq> [] \<longrightarrow>
            (\<exists>v. CSVPreviewTable_render P (Some rows) page = Some v
               \<and> pv_rows v
                   = map (\<lambda>i. \<lparr> row_key = startIndex P page + int i,
                                  row_number = startIndex P page + int i + 1,
                                  row_data = rows ! (nat (startIndex P page) + i) \<rparr>)
                       [0..<length (currentProducts P rows page)])"
    by (simp add: CSVPreviewTable_render_def Let_def CSVPreviewTable_rows_eq [OF assms(2)])
  have wf: "wv_rows (UploadCSVPublic_table P rows page)
           = map (\<lambda>i. \<lparr> row_key = int i,
                          row_number = startIndex P page + int i + 1,
                          row_data = rows ! (nat (startIndex P page) + i) \<rparr>)
               [0..<length (currentProducts P rows page)]"
    by (simp add: UploadCSVPublic_table_def Let_def rowMarkup_eq [OF assms(2)])
  from len win within idx disj csv wf show ?thesis by (intro conjI)
qed

theorem page_window_length_disjoint_witness:
  "(0::nat) < 10 \<and> (1::int) \<le> 3 \<and> (3::int) \<le> max 1 (Math_ceil_div (length [1..<26]) 10)
   \<and> [1..<26] \<noteq> ([] :: nat list)
   \<and> currentProducts 10 [1..<26] 3 = [21, 22, 23, 24, 25]
   \<and> pageIndices 10 [1..<26] 3 = {20..<25}
   \<and> (1::int) \<le> 2 \<and> (2::int) \<le> max 1 (Math_ceil_div (length [1..<26]) 10)
   \<and> pageIndices 10 [1..<26] 3 \<inter> pageIndices 10 [1..<26] 2 = {}
   \<and> (\<exists>v. CSVPreviewTable_render 10 (Some [1..<26]) 3 = Some v
        \<and> map row_number (pv_rows v) = [21, 22, 23, 24, 25]
        \<and> map row_data (pv_rows v) = [21, 22, 23, 24, 25]
        \<and> map row_key (pv_rows v) = [20, 21, 22, 23, 24])
   \<and> map row_key (wv_rows (UploadCSVPublic_table 10 [1..<26] 3)) = [0, 1, 2, 3, 4]
   \<and> map row_number (wv_rows (UploadCSVPublic_table 10 [1..<26] 3)) = [21, 22, 23, 24, 25]"
proof -
  have p0: "(0::nat) < 10" and p1: "(1::int) \<le> 3" by simp_all
  have h: "(3::int) \<le> max 1 (Math_ceil_div (length [1..<26]) 10)"
    by (simp add: Math_ceil_div_def)
  have h2: "(2::int) \<le> max 1 (Math_ceil_div (length [1..<26]) 10)"
    by (simp add: Math_ceil_div_def)
  have cur: "currentProducts 10 [1..<26] 3 = [21, 22, 23, 24, 25]"
    by code_simp
  have s: "startIndex 10 3 = 20" by (simp add: startIndex_def)
  have five: "[0..<5] = [0, 1, 2, 3, 4]" by code_simp
  note t = page_window_length_disjoint [OF p0 p1 h]
  note rest = t [THEN conjunct2, THEN conjunct2, THEN conjunct2]
  from rest [THEN conjunct1, unfolded cur s]
  have idx: "pageIndices 10 [1..<26] 3 = {20..<25}"
    by simp
  from rest [THEN conjunct2, THEN conjunct1] h2
  have disj: "pageIndices 10 [1..<26] 3 \<inter> pageIndices 10 [1..<26] 2 = {}"
    by (elim allE [of _ 2]) simp
  from rest [THEN conjunct2, THEN conjunct2, THEN conjunct1, unfolded cur s]
  obtain v where v: "CSVPreviewTable_render 10 (Some [1..<26]) 3 = Some v"
    and rows: "pv_rows v
                 = [\<lparr> row_key = 20, row_number = 21, row_data = 21 \<rparr>,
                    \<lparr> row_key = 21, row_number = 22, row_data = 22 \<rparr>,
                    \<lparr> row_key = 22, row_number = 23, row_data = 23 \<rparr>,
                    \<lparr> row_key = 23, row_number = 24, row_data = 24 \<rparr>,
                    \<lparr> row_key = 24, row_number = 25, row_data = 25 \<rparr>]"
    by (auto simp add: five)
  from rows have pv: "map row_number (pv_rows v) = [21, 22, 23, 24, 25]
        \<and> map row_data (pv_rows v) = [21, 22, 23, 24, 25]
        \<and> map row_key (pv_rows v) = [20, 21, 22, 23, 24]"
    by simp
  from rest [THEN conjunct2, THEN conjunct2, THEN conjunct2, unfolded cur s]
  have "wv_rows (UploadCSVPublic_table 10 [1..<26] 3)
                 = [\<lparr> row_key = 0, row_number = 21, row_data = 21 \<rparr>,
                    \<lparr> row_key = 1, row_number = 22, row_data = 22 \<rparr>,
                    \<lparr> row_key = 2, row_number = 23, row_data = 23 \<rparr>,
                    \<lparr> row_key = 3, row_number = 24, row_data = 24 \<rparr>,
                    \<lparr> row_key = 4, row_number = 25, row_data = 25 \<rparr>]"
    by (simp add: five)
  then have wv: "map row_key (wv_rows (UploadCSVPublic_table 10 [1..<26] 3)) = [0, 1, 2, 3, 4]
     \<and> map row_number (wv_rows (UploadCSVPublic_table 10 [1..<26] 3)) = [21, 22, 23, 24, 25]"
    by simp
  have ne: "[1..<26] \<noteq> ([] :: nat list)" by simp
  from v pv have ex: "\<exists>v. CSVPreviewTable_render 10 (Some [1..<26]) 3 = Some v
        \<and> map row_number (pv_rows v) = [21, 22, 23, 24, 25]
        \<and> map row_data (pv_rows v) = [21, 22, 23, 24, 25]
        \<and> map row_key (pv_rows v) = [20, 21, 22, 23, 24]"
    by (intro exI [of _ v] conjI) (simp_all only: simp_thms)
  from p0 p1 h h2 ne cur idx disj ex wv show ?thesis by (intro conjI) (simp_all only: simp_thms)
qed

text \<open>
  C3, as the code has it. From a page above 1, previous then next returns to the page;
  from a page below the last, next then previous returns to it; the window of rows is
  then the same. This holds for the clamped handlers, for the buttons with their
  \<open>disabled\<close> flags and for the presses on the \<open>Pagination\<close> control. The bare updates
  of the workflow table undo each other at every page.
\<close>

theorem prev_next_round_trip:
  "(1 < page \<and> page \<le> totalPages \<longrightarrow>
       handleNext totalPages (handlePrev page) = page
     \<and> clickNext totalPages (clickPrev page) = page
     \<and> pressNext totalPages (pressPrevious page) = page
     \<and> currentProducts P rows (handleNext totalPages (handlePrev page))
         = currentProducts P rows page)
   \<and> (1 \<le> page \<and> page < totalPages \<longrightarrow>
       handlePrev (handleNext totalPages page) = page
     \<and> clickPrev (clickNext totalPages page) = page
     \<and> pressPrevious (pressNext totalPages page) = page
     \<and> currentProducts P rows (handlePrev (handleNext totalPages page))
         = currentProducts P rows page)
   \<and> onNext (onPrevious page) = page \<and> onPrevious (onNext page) = page"
  by (auto simp add: handleNext_def handlePrev_def clickNext_def clickPrev_def
      pressNext_def pressPrevious_def onNext_def onPrevious_def)

theorem prev_next_round_trip_witness:
  "(1::int) < 2 \<and> (2::int) \<le> 3 \<and> handleNext 3 (handlePrev 2) = 2
   \<and> clickPrev (clickNext 3 2) = 2
   \<and> currentProducts 10 [1..<26::nat] (handleNext 3 (handlePrev 2)) = [11..<21]"
  using prev_next_round_trip [of 2 3 10 "[1..<26::nat]"]
  by (simp add: currentProducts_def js_slice_def startIndex_def)

text \<open>
  At the first page of three, previous is a no-op and next moves on: the round trip ends
  on page 2, with another window. At the last page next then previous ends on page 2.
\<close>

theorem prev_next_boundary_counterexample:
  "handleNext (Math_ceil_div 25 10) (handlePrev 1) = 2
   \<and> clickNext (Math_ceil_div 25 10) (clickPrev 1) = 2
   \<and> pressNext (Math_ceil_div 25 10) (pressPrevious 1) = 2
   \<and> handlePrev (handleNext (Math_ceil_div 25 10) 3) = 2
   \<and> currentProducts 10 [1..<26] (handleNext (Math_ceil_div 25 10) (handlePrev 1))
       \<noteq> currentProducts 10 [1..<26] 1"
  by (simp add: handleNext_def handlePrev_def clickNext_def clickPrev_def pressNext_def
      pressPrevious_def onNext_def onPrevious_def Math_ceil_div_def
      currentProducts_def js_slice_def startIndex_def)

section \<open>Facts about \<open>JSON.parse\<close>\<close>

lemma length_skip_ws: "length (skip_ws s) \<le> length s"
  by (induction s) auto

lemma skip_ws_Cons_length: "skip_ws s = c # cs \<Longrightarrow> length cs < length s"
  using length_skip_ws [of s] by simp

lemma parse_chars_length: "parse_chars acc s = Some (str, r) \<Longrightarrow> length r < length s"
proof (induction acc s rule: parse_chars.induct)
  case (1 acc)
  then show ?case by simp
next
  case (2 acc c)
  then show ?case by (simp split: if_splits)
next
  case (3 acc c e es)
  consider (quote) "c = 34" | (uni) "c \<noteq> 34" "c = 92" "e = 117"
    | (esc) "c \<noteq> 34" "c = 92" "e \<noteq> 117" | (plain) "c \<noteq> 34" "c \<noteq> 92"
    by blast
  then show ?case
  proof cases
    case quote
    with "3.prems" show ?thesis by simp
  next
    case uni
    with "3.prems" obtain h1 h2 h3 h4 r' u where es: "es = h1 # h2 # h3 # h4 # r'"
      and hx: "hex4 h1 h2 h3 h4 = Some u" and rec: "parse_chars (u # acc) r' = Some (str, r)"
      by (simp split: list.splits option.splits)
    from "3.IH"(1) [OF uni es refl refl refl hx rec] es show ?thesis by simp
  next
    case esc
    with "3.prems" obtain u where ec: "escape_char e = Some u"
      and rec: "parse_chars (u # acc) es = Some (str, r)"
      by (simp split: option.splits)
    from "3.IH"(2) [OF esc ec rec] show ?thesis by simp
  next
    case plain
    with "3.prems" have lt: "\<not> c < 32" and rec: "parse_chars (c # acc) (e # es) = Some (str, r)"
      by (simp_all split: if_splits)
    from "3.IH"(3) [OF plain lt rec] show ?thesis by simp
  qed
qed

lemma opt_minus_length: "opt_minus s = (b, r) \<Longrightarrow> length r \<le> length s"
  by (auto simp add: opt_minus_def split: list.splits if_splits)

lemma opt_sign_length: "opt_sign s = (b, r) \<Longrightarrow> length r \<le> length s"
  by (auto simp add: opt_sign_def split: list.splits if_splits)

lemma length_takeWhile_dropWhile:
  "length (takeWhile P xs) + length (dropWhile P xs) = length xs"
  by (metis length_append takeWhile_dropWhile_id)

lemma parse_int_part_length: "parse_int_part s = Some (ip, r) \<Longrightarrow> length r < length s"
proof -
  assume a: "parse_int_part s = Some (ip, r)"
  then have "takeWhile is_digit s \<noteq> []" and "r = dropWhile is_digit s"
    by (auto simp add: parse_int_part_def Let_def split: if_splits)
  then show ?thesis
    using length_takeWhile_dropWhile [of is_digit s] by (cases "takeWhile is_digit s") auto
qed

lemma parse_frac_length: "parse_frac s = Some (fp, r) \<Longrightarrow> length r \<le> length s"
  using length_dropWhile_le [of is_digit "tl s"]
  by (auto simp add: parse_frac_def split: list.splits if_splits)

lemma parse_exp_length: "parse_exp s = Some (e, r) \<Longrightarrow> length r \<le> length s"
proof (cases s)
  case Nil
  then show "parse_exp s = Some (e, r) \<Longrightarrow> length r \<le> length s"
    by (simp add: parse_exp_def)
next
  case (Cons c cs)
  assume a: "parse_exp s = Some (e, r)"
  show "length r \<le> length s"
  proof (cases "c = 101 \<or> c = 69")
    case True
    obtain eneg ds where os: "opt_sign cs = (eneg, ds)" by (cases "opt_sign cs")
    with a Cons True have "r = dropWhile is_digit ds"
      by (auto simp add: parse_exp_def split: if_splits)
    with opt_sign_length [OF os] length_dropWhile_le [of is_digit ds] Cons
    show ?thesis by simp
  next
    case False
    with a Cons show ?thesis by (auto simp add: parse_exp_def)
  qed
qed

lemma parse_number_length:
  assumes "parse_number s = Some (v, r)"
  shows "length r < length s"
proof -
  obtain neg s1 where om: "opt_minus s = (neg, s1)" by (cases "opt_minus s")
  from assms om obtain ip s2 where ip: "parse_int_part s1 = Some (ip, s2)"
    by (auto simp add: parse_number_def split: option.splits)
  from assms om ip obtain fp s3 where fp: "parse_frac s2 = Some (fp, s3)"
    by (auto simp add: parse_number_def split: option.splits)
  from assms om ip fp obtain e where ep: "parse_exp s3 = Some (e, r)"
    by (auto simp add: parse_number_def split: option.splits)
  from opt_minus_length [OF om] parse_int_part_length [OF ip] parse_frac_length [OF fp]
    parse_exp_length [OF ep]
  show ?thesis by simp
qed

lemma parse_literal_length: "parse_literal s = Some (v, r) \<Longrightarrow> length r < length s"
  by (auto simp add: parse_literal_def js_def prefix_def split: if_splits
      dest: parse_number_length)

lemma parse_length:
  "parse_value n s = POk (v, r) \<Longrightarrow> length r < length s"
  "parse_elems n es s = POk (v, r) \<Longrightarrow> length r < length s"
  "parse_members n ms s = POk (v, r) \<Longrightarrow> length r < length s"
proof (induction n s and n es s and n ms s arbitrary: v r and v r and v r
    rule: parse_value_parse_elems_parse_members.induct)
  case (1 s)
  then show ?case by simp
next
  case (2 n s)
  show ?case
  proof (cases "skip_ws s")
    case Nil
    with "2.prems" show ?thesis by simp
  next
    case (Cons c cs)
    note s = this
    have cs: "length cs < length s" using s by (rule skip_ws_Cons_length)
    consider (str) "c = 34" | (arr) "c \<noteq> 34" "c = 91" | (obj) "c \<noteq> 34" "c \<noteq> 91" "c = 123"
      | (lit) "c \<noteq> 34" "c \<noteq> 91" "c \<noteq> 123" by blast
    then show ?thesis
    proof cases
      case str
      with "2.prems" s cs show ?thesis
        by (auto split: option.splits dest!: parse_chars_length)
    next
      case arr
      show ?thesis
      proof (cases "skip_ws cs")
        case Nil
        with "2.prems" s arr show ?thesis by simp
      next
        case (Cons d ds)
        have ds: "length ds < length cs" using Cons by (rule skip_ws_Cons_length)
        show ?thesis
        proof (cases "d = 93")
          case True
          with "2.prems" s arr Cons cs ds show ?thesis by auto
        next
          case False
          with "2.prems" s arr Cons have "parse_elems n [] (d # ds) = POk (v, r)" by simp
          from "2.IH"(1) [OF s _ arr(2) Cons False this] arr
          have "length r < length (d # ds)" by simp
          with cs ds show ?thesis by simp
        qed
      qed
    next
      case obj
      show ?thesis
      proof (cases "skip_ws cs")
        case Nil
        with "2.prems" s obj show ?thesis by simp
      next
        case (Cons d ds)
        have ds: "length ds < length cs" using Cons by (rule skip_ws_Cons_length)
        show ?thesis
        proof (cases "d = 125")
          case True
          with "2.prems" s obj Cons cs ds show ?thesis by auto
        next
          case False
          with "2.prems" s obj Cons have "parse_members n [] (d # ds) = POk (v, r)" by simp
          from "2.IH"(2) [OF s _ _ obj(3) Cons False this] obj
          have "length r < length (d # ds)" by simp
          with cs ds show ?thesis by simp
        qed
      qed
    next
      case lit
      with "2.prems" s have "parse_literal (c # cs) = Some (v, r)"
        by (auto split: option.splits)
      then have "length r < length (c # cs)" by (rule parse_literal_length)
      with cs show ?thesis by simp
    qed
  qed
next
  case (3 acc s)
  then show ?case by simp
next
  case (4 n acc s)
  from "4.prems" obtain v1 r1 where pv: "parse_value n s = POk (v1, r1)"
    by (auto split: presult.splits)
  then have r1: "length r1 < length s" by (rule "4.IH"(1))
  from "4.prems" pv obtain d ds where sk: "skip_ws r1 = d # ds"
    by (auto split: list.splits)
  then have ds: "length ds < length r1" by (rule skip_ws_Cons_length)
  show ?case
  proof (cases "d = 44")
    case True
    with "4.prems" pv sk have "parse_elems n (v1 # acc) ds = POk (v, r)" by simp
    from "4.IH"(2) [OF pv refl sk True this] have "length r < length ds" .
    with r1 ds show ?thesis by simp
  next
    case False
    with "4.prems" pv sk have "r = ds" by (auto split: if_splits)
    with r1 ds show ?thesis by simp
  qed
next
  case (5 acc s)
  then show ?case by simp
next
  case (6 n acc s)
  from "6.prems" obtain q qs where s: "skip_ws s = q # qs"
    by (auto split: list.splits)
  then have qs: "length qs < length s" by (rule skip_ws_Cons_length)
  from "6.prems" s have q: "q = 34" by (auto split: if_splits)
  from "6.prems" s q obtain key r0 where pc: "parse_chars [] qs = Some (key, r0)"
    by (auto split: option.splits)
  then have r0: "length r0 < length qs" by (rule parse_chars_length)
  from "6.prems" s q pc obtain c cs where sk: "skip_ws r0 = c # cs"
    by (auto split: list.splits)
  then have cs: "length cs < length r0" by (rule skip_ws_Cons_length)
  from "6.prems" s q pc sk have c: "c = 58" by (auto split: if_splits)
  from "6.prems" s q pc sk c obtain v1 r1 where pv: "parse_value n cs = POk (v1, r1)"
    by (auto split: presult.splits)
  have nq: "\<not> q \<noteq> 34" using q by simp
  have nc: "\<not> c \<noteq> 58" using c by simp
  from "6.IH"(1) [OF s nq pc refl sk nc pv] have r1: "length r1 < length cs" .
  from "6.prems" s q pc sk c pv obtain d ds where sk2: "skip_ws r1 = d # ds"
    by (auto split: list.splits)
  then have ds: "length ds < length r1" by (rule skip_ws_Cons_length)
  show ?case
  proof (cases "d = 44")
    case True
    with "6.prems" s q pc sk c pv sk2
    have "parse_members n ((key, v1) # acc) ds = POk (v, r)" by simp
    from "6.IH"(2) [OF s nq pc refl sk nc pv refl sk2 True this] have "length r < length ds" .
    with qs r0 cs r1 ds show ?thesis by simp
  next
    case False
    with "6.prems" s q pc sk c pv sk2 have "r = ds" by (auto split: if_splits)
    with qs r0 cs r1 ds show ?thesis by simp
  qed
qed

lemma parse_fuel:
  "2 * length s + 1 \<le> n \<Longrightarrow> parse_value n s \<noteq> PFuel"
  "2 * length s + 2 \<le> n \<Longrightarrow> parse_elems n es s \<noteq> PFuel"
  "2 * length s + 2 \<le> n \<Longrightarrow> parse_members n ms s \<noteq> PFuel"
proof (induction n s and n es s and n ms s
    rule: parse_value_parse_elems_parse_members.induct)
  case (1 s)
  then show ?case by simp
next
  case (2 n s)
  show ?case
  proof (cases "skip_ws s")
    case Nil
    then show ?thesis by simp
  next
    case (Cons c cs)
    note s = this
    have cs: "length cs < length s" using s by (rule skip_ws_Cons_length)
    consider (str) "c = 34" | (arr) "c \<noteq> 34" "c = 91" | (obj) "c \<noteq> 34" "c \<noteq> 91" "c = 123"
      | (lit) "c \<noteq> 34" "c \<noteq> 91" "c \<noteq> 123" by blast
    then show ?thesis
    proof cases
      case str
      with s show ?thesis by (simp split: option.splits)
    next
      case arr
      show ?thesis
      proof (cases "skip_ws cs")
        case Nil
        with s arr show ?thesis by simp
      next
        case (Cons d ds)
        have ds: "length ds < length cs" using Cons by (rule skip_ws_Cons_length)
        show ?thesis
        proof (cases "d = 93")
          case True
          with s arr Cons show ?thesis by simp
        next
          case False
          have "2 * length (d # ds) + 2 \<le> n" using "2.prems" cs ds by simp
          from "2.IH"(1) [OF s _ arr(2) Cons False this] arr
          have "parse_elems n [] (d # ds) \<noteq> PFuel" by simp
          with s arr Cons False show ?thesis by simp
        qed
      qed
    next
      case obj
      show ?thesis
      proof (cases "skip_ws cs")
        case Nil
        with s obj show ?thesis by simp
      next
        case (Cons d ds)
        have ds: "length ds < length cs" using Cons by (rule skip_ws_Cons_length)
        show ?thesis
        proof (cases "d = 125")
          case True
          with s obj Cons show ?thesis by simp
        next
          case False
          have "2 * length (d # ds) + 2 \<le> n" using "2.prems" cs ds by simp
          from "2.IH"(2) [OF s _ _ obj(3) Cons False this] obj
          have "parse_members n [] (d # ds) \<noteq> PFuel" by simp
          with s obj Cons False show ?thesis by simp
        qed
      qed
    next
      case lit
      with s show ?thesis by (simp split: option.splits)
    qed
  qed
next
  case (3 acc s)
  then show ?case by simp
next
  case (4 n acc s)
  have "2 * length s + 1 \<le> n" using "4.prems" by simp
  then have nf: "parse_value n s \<noteq> PFuel" by (rule "4.IH"(1))
  show ?case
  proof (cases "parse_value n s")
    case (POk p)
    obtain v1 r1 where p: "p = (v1, r1)" by (cases p)
    with POk have pv: "parse_value n s = POk (v1, r1)" by simp
    then have r1: "length r1 < length s" by (rule parse_length(1))
    show ?thesis
    proof (cases "skip_ws r1")
      case Nil
      with pv show ?thesis by simp
    next
      case (Cons d ds)
      then have ds: "length ds < length r1" by (rule skip_ws_Cons_length)
      show ?thesis
      proof (cases "d = 44")
        case True
        have "2 * length ds + 2 \<le> n" using "4.prems" r1 ds by simp
        from "4.IH"(2) [OF pv refl Cons True this]
        show ?thesis using pv Cons True by simp
      next
        case False
        with pv Cons show ?thesis by simp
      qed
    qed
  next
    case PSyntax
    then show ?thesis by simp
  next
    case PFuel
    with nf show ?thesis by simp
  qed
next
  case (5 acc s)
  then show ?case by simp
next
  case (6 n acc s)
  show ?case
  proof (cases "skip_ws s")
    case Nil
    then show ?thesis by simp
  next
    case (Cons q qs)
    note s = this
    then have qs: "length qs < length s" by (rule skip_ws_Cons_length)
    show ?thesis
    proof (cases "q \<noteq> 34")
      case True
      with s show ?thesis by simp
    next
      case nq: False
      show ?thesis
      proof (cases "parse_chars [] qs")
        case None
        with s nq show ?thesis by simp
      next
        case (Some kr)
        obtain key r0 where kr: "kr = (key, r0)" by (cases kr)
        with Some have pc: "parse_chars [] qs = Some (key, r0)" by simp
        then have r0: "length r0 < length qs" by (rule parse_chars_length)
        show ?thesis
        proof (cases "skip_ws r0")
          case Nil
          with s nq pc show ?thesis by simp
        next
          case (Cons c cs)
          note sk = this
          then have cs: "length cs < length r0" by (rule skip_ws_Cons_length)
          show ?thesis
          proof (cases "c \<noteq> 58")
            case True
            with s nq pc sk show ?thesis by simp
          next
            case nc: False
            have "2 * length cs + 1 \<le> n" using "6.prems" qs r0 cs by simp
            from "6.IH"(1) [OF s nq pc refl sk nc this]
            have nf: "parse_value n cs \<noteq> PFuel" .
            show ?thesis
            proof (cases "parse_value n cs")
              case (POk p)
              obtain v1 r1 where p: "p = (v1, r1)" by (cases p)
              with POk have pv: "parse_value n cs = POk (v1, r1)" by simp
              then have r1: "length r1 < length cs" by (rule parse_length(1))
              show ?thesis
              proof (cases "skip_ws r1")
                case Nil
                with s nq pc sk nc pv show ?thesis by simp
              next
                case (Cons d ds)
                note sk2 = this
                then have ds: "length ds < length r1" by (rule skip_ws_Cons_length)
                show ?thesis
                proof (cases "d = 44")
                  case True
                  have "2 * length ds + 2 \<le> n" using "6.prems" qs r0 cs r1 ds by simp
                  from "6.IH"(2) [OF s nq pc refl sk nc pv refl sk2 True this]
                  show ?thesis using s nq pc sk nc pv sk2 True by simp
                next
                  case False
                  with s nq pc sk nc pv sk2 show ?thesis by simp
                qed
              qed
            next
              case PSyntax
              with s nq pc sk nc show ?thesis by simp
            next
              case PFuel
              with nf show ?thesis by simp
            qed
          qed
        qed
      qed
    qed
  qed
qed

lemma JSON_parse_fuel: "parse_value (2 * length text + 1) text \<noteq> PFuel"
  by (rule parse_fuel(1)) simp

section \<open>Claims about the log stream consumers\<close>







lemma LogPanel_onmessage_shown:
  assumes "data \<noteq> []" and "trim data \<noteq> []"
    and "JSON_parse (LogPanel_rawData data) = Some logData"
    and "shouldShow logData = Inr b"
  shows "LogPanel_onmessage logs data = (if b then logs @ [logData] else logs)"
  using assms by (simp add: LogPanel_onmessage_def)

lemma LogPanel_onmessage_unparsed:
  assumes "JSON_parse (LogPanel_rawData data) = None"
  shows "LogPanel_onmessage logs data = logs"
  using assms by (simp add: LogPanel_onmessage_def)

lemma LogPanel_onmessage_throws:
  assumes "JSON_parse (LogPanel_rawData data) = Some logData"
    and "shouldShow logData = Inl e"
  shows "LogPanel_onmessage logs data = logs"
  using assms by (simp add: LogPanel_onmessage_def)

text \<open>
  C4, as the code has it. When LogPanel receives the JSON text
  \<open>{"message": "Success: synced"}\<close> wrapped in one pair of single quotes, it strips the
  quotes, parses the rest, finds the keyword \<open>Success\<close> in the message and appends the
  parsed entry to the buffer.
\<close>

theorem quoted_json_payload_appended:
  "LogPanel_rawData ([39] @ js ''{\"message\": \"Success: synced\"}'' @ [39])
     = js ''{\"message\": \"Success: synced\"}''
   \<and> JSON_parse (js ''{\"message\": \"Success: synced\"}'')
     = Some (JObject [(js ''message'', JString (js ''Success: synced''))])
   \<and> shouldShow (JObject [(js ''message'', JString (js ''Success: synced''))]) = Inr True
   \<and> LogPanel_onmessage logs ([39] @ js ''{\"message\": \"Success: synced\"}'' @ [39])
     = logs @ [JObject [(js ''message'', JString (js ''Success: synced''))]]"
proof -
  let ?data = "[39] @ js ''{\"message\": \"Success: synced\"}'' @ [39]"
  let ?entry = "JObject [(js ''message'', JString (js ''Success: synced''))]"
  have raw: "LogPanel_rawData ?data = js ''{\"message\": \"Success: synced\"}''"
    by code_simp
  have parsed: "JSON_parse (js ''{\"message\": \"Success: synced\"}'') = Some ?entry"
    by code_simp
  have shown: "shouldShow ?entry = Inr True"
    by (simp add: shouldShow_def message_includes_def or_else_def js_def)
  have nonempty: "?data \<noteq> []" by simp
  have nonblank: "trim ?data \<noteq> []"
    by (simp add: trim_def js_def js_is_space_def)
  have parsed': "JSON_parse (LogPanel_rawData ?data) = Some ?entry"
    by (simp only: raw parsed)
  have "LogPanel_onmessage logs ?data = (if True then logs @ [?entry] else logs)"
    using nonempty nonblank parsed' shown by (rule LogPanel_onmessage_shown)
  then have "LogPanel_onmessage logs ?data = logs @ [?entry]" by (simp only: if_True)
  with raw parsed shown show ?thesis by (simp only: simp_thms)
qed

text \<open>
  The payload as the scenario writes it, \<open>{'message': 'Success: synced'}\<close> with
  single-quoted names, is not JSON. Wrapped in double quotes it parses to a string, which
  has no \<open>message\<close>; wrapped in single quotes or bare it does not parse. Nothing is
  appended in either case.
\<close>

theorem python_repr_payload_counterexample:
  "LogPanel_onmessage [] ([34] @ js ''{'message': 'Success: synced'}'' @ [34]) = []
   \<and> LogPanel_onmessage [] ([39] @ js ''{'message': 'Success: synced'}'' @ [39]) = []
   \<and> JSON_parse (js ''{'message': 'Success: synced'}'') = None"
proof -
  let ?inner = "js ''{'message': 'Success: synced'}''"
  have inner: "JSON_parse ?inner = None"
    by code_simp
  have rawA: "LogPanel_rawData ([34] @ ?inner @ [34]) = [34] @ ?inner @ [34]"
    by (simp add: LogPanel_rawData_def startsWith_def)
  have "JSON_parse ([34] @ ?inner @ [34]) = Some (JString ?inner)"
    by code_simp
  then have parsedA: "JSON_parse (LogPanel_rawData ([34] @ ?inner @ [34])) = Some (JString ?inner)"
    by (simp only: rawA)
  have shownA: "shouldShow (JString ?inner)
                  = Inl (TypeError (js ''Cannot read properties of undefined''))"
    by (simp add: shouldShow_def message_includes_def or_else_def)
  have A: "LogPanel_onmessage [] ([34] @ ?inner @ [34]) = []"
    using parsedA shownA by (rule LogPanel_onmessage_throws)
  have rawB: "LogPanel_rawData ([39] @ ?inner @ [39]) = ?inner"
    by code_simp
  have "JSON_parse (LogPanel_rawData ([39] @ ?inner @ [39])) = None"
    by (simp only: rawB inner)
  then have B: "LogPanel_onmessage [] ([39] @ ?inner @ [39]) = []"
    by (rule LogPanel_onmessage_unparsed)
  from A B inner show ?thesis by (simp only: simp_thms)
qed




lemma UploadCSVPublic_closed_deliver:
  "wc_readyState s = CLOSED \<Longrightarrow> UploadCSVPublic_deliver pf s ev = s"
  by (cases ev) simp_all

lemma UploadCSVPublic_closed_run:
  "wc_readyState s = CLOSED \<Longrightarrow> UploadCSVPublic_run pf s evs = s"
  unfolding UploadCSVPublic_run_def
  by (induction evs) (simp_all add: UploadCSVPublic_closed_deliver)

lemma UploadCSVPublic_closed_disconnected_deliver:
  assumes "wc_readyState s = CLOSED \<longrightarrow> \<not> isConnected s"
  shows "wc_readyState (UploadCSVPublic_deliver pf s ev) = CLOSED
           \<longrightarrow> \<not> isConnected (UploadCSVPublic_deliver pf s ev)"
  using assms by (cases ev) simp_all

lemma UploadCSVPublic_closed_disconnected_run:
  assumes "wc_readyState s = CLOSED \<longrightarrow> \<not> isConnected s"
  shows "wc_readyState (UploadCSVPublic_run pf s evs) = CLOSED
           \<longrightarrow> \<not> isConnected (UploadCSVPublic_run pf s evs)"
  using assms unfolding UploadCSVPublic_run_def
proof (induction evs arbitrary: s)
  case Nil
  then show ?case by simp
next
  case (Cons ev evs)
  from Cons.prems have "wc_readyState (UploadCSVPublic_deliver pf s ev) = CLOSED
           \<longrightarrow> \<not> isConnected (UploadCSVPublic_deliver pf s ev)"
    by (rule UploadCSVPublic_closed_disconnected_deliver)
  then show ?case using Cons.IH by simp
qed

lemma UploadCSVPublic_after_error:
  assumes "wc_readyState s = CLOSED \<longrightarrow> \<not> isConnected s"
  shows "\<not> isConnected (UploadCSVPublic_deliver pf s (StreamError g))
       \<and> wc_readyState (UploadCSVPublic_deliver pf s (StreamError g)) = CLOSED"
  using assms by simp

text \<open>
  C6, as the code has it. In the consumer of the workflow routes a stream error that is
  delivered clears \<open>isConnected\<close> and closes the source, whatever the status was;
  whatever the browser delivers afterwards, the consumer stays disconnected and closed.
  Hence after any run of events from mounting that holds an error the consumer is not
  connected: nothing in the component reopens the source.
\<close>

theorem UploadCSVPublic_error_disconnects:
  "(wc_readyState s \<noteq> CLOSED \<longrightarrow>
       \<not> isConnected (UploadCSVPublic_deliver pf s (StreamError g))
     \<and> wc_readyState (UploadCSVPublic_deliver pf s (StreamError g)) = CLOSED
     \<and> (\<forall>evs. \<not> isConnected (UploadCSVPublic_run pf (UploadCSVPublic_deliver pf s (StreamError g)) evs)
            \<and> wc_readyState (UploadCSVPublic_run pf (UploadCSVPublic_deliver pf s (StreamError g)) evs)
                = CLOSED))
   \<and> \<not> isConnected (UploadCSVPublic_run pf UploadCSVPublic_init (before @ StreamError g # after))
   \<and> wc_readyState (UploadCSVPublic_run pf UploadCSVPublic_init (before @ StreamError g # after))
       = CLOSED"
proof -
  have step: "wc_readyState s \<noteq> CLOSED \<longrightarrow>
       \<not> isConnected (UploadCSVPublic_deliver pf s (StreamError g))
     \<and> wc_readyState (UploadCSVPublic_deliver pf s (StreamError g)) = CLOSED
     \<and> (\<forall>evs. \<not> isConnected (UploadCSVPublic_run pf (UploadCSVPublic_deliver pf s (StreamError g)) evs)
            \<and> wc_readyState (UploadCSVPublic_run pf (UploadCSVPublic_deliver pf s (StreamError g)) evs)
                = CLOSED)"
    by (simp add: UploadCSVPublic_closed_run)
  let ?s1 = "UploadCSVPublic_run pf UploadCSVPublic_init before"
  have inv: "wc_readyState ?s1 = CLOSED \<longrightarrow> \<not> isConnected ?s1"
    by (rule UploadCSVPublic_closed_disconnected_run) (simp add: UploadCSVPublic_init_def)
  then have e: "\<not> isConnected (UploadCSVPublic_deliver pf ?s1 (StreamError g))
       \<and> wc_readyState (UploadCSVPublic_deliver pf ?s1 (StreamError g)) = CLOSED"
    by (rule UploadCSVPublic_after_error)
  have split: "UploadCSVPublic_run pf UploadCSVPublic_init (before @ StreamError g # after)
          = UploadCSVPublic_run pf (UploadCSVPublic_deliver pf ?s1 (StreamError g)) after"
    by (simp add: UploadCSVPublic_run_def)
  have "UploadCSVPublic_run pf (UploadCSVPublic_deliver pf ?s1 (StreamError g)) after
          = UploadCSVPublic_deliver pf ?s1 (StreamError g)"
    using e by (intro UploadCSVPublic_closed_run) simp
  with split e step show ?thesis by simp
qed

theorem UploadCSVPublic_error_disconnects_witness:
  "wc_readyState \<lparr> isConnected = True, wc_logs = [], wc_readyState = OPEN \<rparr> \<noteq> CLOSED
   \<and> \<not> isConnected (UploadCSVPublic_run
          \<lparr> numberToString = (\<lambda>m e. js ''0''), toLocaleTimeString = (\<lambda>ts. js ''12:00:00'') \<rparr>
          (UploadCSVPublic_deliver
             \<lparr> numberToString = (\<lambda>m e. js ''0''), toLocaleTimeString = (\<lambda>ts. js ''12:00:00'') \<rparr>
             \<lparr> isConnected = True, wc_logs = [], wc_readyState = OPEN \<rparr> (StreamError False))
          [StreamOpen 1700000001000])
   \<and> isConnected (UploadCSVPublic_run
          \<lparr> numberToString = (\<lambda>m e. js ''0''), toLocaleTimeString = (\<lambda>ts. js ''12:00:00'') \<rparr>
          UploadCSVPublic_init [StreamOpen 1700000000000])"
  using UploadCSVPublic_error_disconnects
    [of "\<lparr> isConnected = True, wc_logs = [], wc_readyState = OPEN \<rparr>"
        "\<lparr> numberToString = (\<lambda>m e. js ''0''), toLocaleTimeString = (\<lambda>ts. js ''12:00:00'') \<rparr>"
        False "[]" "[]"]
  by (simp add: UploadCSVPublic_run_def UploadCSVPublic_init_def)

text \<open>
  LogPanel's \<open>onerror\<close> only logs: after an error with which the browser reconnects the
  source is not closed, and the next \<open>open\<close> finds the panel connected again, with a
  second system entry in the buffer.
\<close>

theorem LogPanel_error_counterexample:
  "lp_readyState (LogPanel_deliver \<lparr> lp_logs = [], lp_readyState = OPEN \<rparr> (StreamError False))
     = CONNECTING
   \<and> lp_readyState (LogPanel_run LogPanel_init
        [StreamOpen 1700000000000, StreamError False, StreamOpen 1700000003000])
     = OPEN
   \<and> length (lp_logs (LogPanel_run LogPanel_init
        [StreamOpen 1700000000000, StreamError False, StreamOpen 1700000003000]))
     = 2"
  by (simp add: LogPanel_run_def LogPanel_init_def LogPanel_onopen_def)

section \<open>Claims about the backend gateway\<close>

text \<open>
  C7. \<open>pushToShopify\<close> rejects when the backend URL, the shop URL (both
  \<open>SHOPIFY_STORE_URL\<close> and \<open>SHOPIFY_SHOP_URL\<close>) or the access token is unset or empty,
  each with its own message, the three messages being different, and without issuing
  any request; with all of them set it issues one request. With only the shop URL
  missing the message names the shop URL variables.
\<close>

theorem pushToShopify_config_errors:
  "(\<not> is_set (PYTHON_BACKEND_URL ev) \<longrightarrow>
      pushToShopify pf ev fetch = ([], Inl (Error (js ''PYTHON_BACKEND_URL is not set''))))
   \<and> (is_set (PYTHON_BACKEND_URL ev)
        \<and> \<not> is_set (SHOPIFY_STORE_URL ev) \<and> \<not> is_set (SHOPIFY_SHOP_URL ev) \<longrightarrow>
      pushToShopify pf ev fetch
        = ([], Inl (Error (js ''SHOPIFY_STORE_URL (or SHOPIFY_SHOP_URL) is not set in .env''))))
   \<and> (is_set (PYTHON_BACKEND_URL ev)
        \<and> (is_set (SHOPIFY_STORE_URL ev) \<or> is_set (SHOPIFY_SHOP_URL ev))
        \<and> \<not> is_set (SHOPIFY_ACCESS_TOKEN ev) \<longrightarrow>
      pushToShopify pf ev fetch
        = ([], Inl (Error (js ''SHOPIFY_ACCESS_TOKEN is not set in .env''))))
   \<and> (is_set (PYTHON_BACKEND_URL ev)
        \<and> (is_set (SHOPIFY_STORE_URL ev) \<or> is_set (SHOPIFY_SHOP_URL ev))
        \<and> is_set (SHOPIFY_ACCESS_TOKEN ev) \<longrightarrow>
      length (fst (pushToShopify pf ev fetch)) = 1)
   \<and> distinct [js ''PYTHON_BACKEND_URL is not set'',
                js ''SHOPIFY_STORE_URL (or SHOPIFY_SHOP_URL) is not set in .env'',
                js ''SHOPIFY_ACCESS_TOKEN is not set in .env'']"
proof -
  have shop: "is_set (env_or (SHOPIFY_STORE_URL ev) (SHOPIFY_SHOP_URL ev))
                \<longleftrightarrow> is_set (SHOPIFY_STORE_URL ev) \<or> is_set (SHOPIFY_SHOP_URL ev)"
    by (simp add: env_or_def)
  have a: "\<not> is_set (PYTHON_BACKEND_URL ev) \<longrightarrow>
      pushToShopify pf ev fetch = ([], Inl (Error (js ''PYTHON_BACKEND_URL is not set'')))"
    by (simp add: pushToShopify_def Let_def)
  have b: "is_set (PYTHON_BACKEND_URL ev)
        \<and> \<not> is_set (SHOPIFY_STORE_URL ev) \<and> \<not> is_set (SHOPIFY_SHOP_URL ev) \<longrightarrow>
      pushToShopify pf ev fetch
        = ([], Inl (Error (js ''SHOPIFY_STORE_URL (or SHOPIFY_SHOP_URL) is not set in .env'')))"
    by (simp add: pushToShopify_def Let_def shop)
  have c: "is_set (PYTHON_BACKEND_URL ev)
        \<and> (is_set (SHOPIFY_STORE_URL ev) \<or> is_set (SHOPIFY_SHOP_URL ev))
        \<and> \<not> is_set (SHOPIFY_ACCESS_TOKEN ev) \<longrightarrow>
      pushToShopify pf ev fetch
        = ([], Inl (Error (js ''SHOPIFY_ACCESS_TOKEN is not set in .env'')))"
    by (simp add: pushToShopify_def Let_def shop)
  have d: "is_set (PYTHON_BACKEND_URL ev)
        \<and> (is_set (SHOPIFY_STORE_URL ev) \<or> is_set (SHOPIFY_SHOP_URL ev))
        \<and> is_set (SHOPIFY_ACCESS_TOKEN ev) \<longrightarrow>
      length (fst (pushToShopify pf ev fetch)) = 1"
    by (simp add: pushToShopify_def Let_def shop split: sum.splits)
  have e: "distinct [js ''PYTHON_BACKEND_URL is not set'',
                js ''SHOPIFY_STORE_URL (or SHOPIFY_SHOP_URL) is not set in .env'',
                js ''SHOPIFY_ACCESS_TOKEN is not set in .env'']"
    by (simp add: js_def)
  from a b c d e show ?thesis by (simp only: simp_thms)
qed

theorem pushToShopify_config_errors_witness:
  "is_set (Some (js ''http://backend:8000''))
   \<and> \<not> is_set None \<and> \<not> is_set (Some [])
   \<and> pushToShopify
        \<lparr> numberToString = (\<lambda>m e. js ''0''), toLocaleTimeString = (\<lambda>ts. js ''12:00:00'') \<rparr>
        \<lparr> PYTHON_BACKEND_URL = Some (js ''http://backend:8000''),
          SHOPIFY_STORE_URL = None, SHOPIFY_SHOP_URL = Some [],
          SHOPIFY_ACCESS_TOKEN = Some (js ''shpat_1''),
          NEXT_PUBLIC_N8N_WEBHOOK_URL = None \<rparr>
        (\<lambda>rq. Inl (TypeError (js ''fetch failed'')))
      = ([], Inl (Error (js ''SHOPIFY_STORE_URL (or SHOPIFY_SHOP_URL) is not set in .env'')))
   \<and> js_includes (js ''SHOPIFY_STORE_URL (or SHOPIFY_SHOP_URL) is not set in .env'')
        (js ''SHOPIFY_SHOP_URL'')"
proof -
  have h: "is_set (Some (js ''http://backend:8000'')) \<and> \<not> is_set None \<and> \<not> is_set (Some [])"
    by (simp add: is_set_def js_def)
  have i: "js_includes (js ''SHOPIFY_STORE_URL (or SHOPIFY_SHOP_URL) is not set in .env'')
        (js ''SHOPIFY_SHOP_URL'')"
    by (simp add: js_def)
  from pushToShopify_config_errors
    [of "\<lparr> PYTHON_BACKEND_URL = Some (js ''http://backend:8000''),
          SHOPIFY_STORE_URL = None, SHOPIFY_SHOP_URL = Some [],
          SHOPIFY_ACCESS_TOKEN = Some (js ''shpat_1''),
          NEXT_PUBLIC_N8N_WEBHOOK_URL = None \<rparr>"
        "\<lparr> numberToString = (\<lambda>m e. js ''0''), toLocaleTimeString = (\<lambda>ts. js ''12:00:00'') \<rparr>"
        "\<lambda>rq. Inl (TypeError (js ''fetch failed''))"] h i
  show ?thesis by simp
qed

lemma error_of_response_detail:
  assumes "json_body r = Inr v" and "get_prop v (js ''detail'') = Inr (Some (JString d))"
    and "d \<noteq> []"
  shows "error_of_response pf fallback r = Error d"
  using assms by (simp add: error_of_response_def ToString_opt_def)

lemma error_of_response_no_detail:
  assumes "json_body r = Inr v" and "get_prop v (js ''detail'') = Inr d" and "\<not> truthy d"
  shows "error_of_response pf fallback r = Error (fallback @ statusText r)"
  using assms by (simp add: error_of_response_def)

lemma error_of_response_unparsed:
  assumes "json_body r = Inl e"
  shows "error_of_response pf fallback r
           = Error (if statusText r \<noteq> [] then statusText r else fallback @ statusText r)"
  using assms by (simp add: error_of_response_def ToString_opt_def)

lemma error_of_response_truthy:
  assumes "json_body r = Inr v" and "get_prop v (js ''detail'') = Inr d" and "truthy d"
  shows "error_of_response pf fallback r = Error (ToString_opt pf d)"
  using assms by (simp add: error_of_response_def)

lemma error_of_response_empty_array:
  assumes "json_body r = Inr (JObject [(js ''detail'', JArray [])])"
  shows "error_of_response pf fallback r = Error []"
  using assms by (simp add: error_of_response_def ToString_opt_def)

lemma truthy_underflow:
  "\<not> truthy (Some (JNumber 1 (- 400))) \<and> \<not> truthy (Some (JNumber 2 (- 324)))
   \<and> truthy (Some (JNumber 3 (- 324))) \<and> truthy (Some (JNumber 1 (- 300)))"
  by (simp add: rounds_to_zero_def)

lemma error_of_response_underflow:
  "JSON_parse (js ''{\"detail\": 1e-400}'') = Some (JObject [(js ''detail'', JNumber 1 (- 400))])
   \<and> error_of_response pf (js ''Upload failed: '')
        \<lparr> status = 500, statusText = js ''Internal Server Error'',
          json_body = Inr (JObject [(js ''detail'', JNumber 1 (- 400))]),
          text_body = Inr (js ''{\"detail\": 1e-400}'') \<rparr>
      = Error (js ''Upload failed: Internal Server Error'')"
proof -
  have "JSON_parse (js ''{\"detail\": 1e-400}'')
          = Some (JObject [(js ''detail'', JNumber 1 (- 400))])"
    by code_simp
  moreover have "\<not> truthy (Some (JNumber 1 (- 400)))"
    by (simp add: rounds_to_zero_def)
  then have "error_of_response pf (js ''Upload failed: '')
        \<lparr> status = 500, statusText = js ''Internal Server Error'',
          json_body = Inr (JObject [(js ''detail'', JNumber 1 (- 400))]),
          text_body = Inr (js ''{\"detail\": 1e-400}'') \<rparr>
      = Error (js ''Upload failed: Internal Server Error'')"
    by (simp add: error_of_response_def js_def)
  ultimately show ?thesis by (simp only: simp_thms)
qed

lemma uploadCSV_non_2xx_rejects:
  assumes "is_set (PYTHON_BACKEND_URL ev)"
    and "\<And>rq. fetch rq = Inr r" and "\<not> ok r"
  shows "snd (uploadCSV pf ev fetch f) = Inl (error_of_response pf (js ''Upload failed: '') r)"
  using assms by (simp add: uploadCSV_def Let_def)

lemma pushToShopify_non_2xx_rejects:
  assumes "is_set (PYTHON_BACKEND_URL ev)"
    and "is_set (SHOPIFY_STORE_URL ev) \<or> is_set (SHOPIFY_SHOP_URL ev)"
    and "is_set (SHOPIFY_ACCESS_TOKEN ev)"
    and "\<And>rq. fetch rq = Inr r" and "\<not> ok r"
  shows "snd (pushToShopify pf ev fetch) = Inl (error_of_response pf (js ''Push failed: '') r)"
  using assms by (auto simp add: pushToShopify_def Let_def env_or_def)

text \<open>
  C8 at a response the code mishandles: a \<open>500\<close> whose body is the JSON text \<open>null\<close>.
  \<open>response.json()\<close> resolves to \<open>null\<close>, reading \<open>errorData.detail\<close> throws, and both
  operations reject with that TypeError, whose message has nothing of the status text.
  For every other non-2xx response the lemmas above give the rejection: the string of
  the \<open>detail\<close> when the \<open>detail\<close> is truthy (the \<open>detail\<close> itself when it is a non-empty
  string, the empty message when it is the empty array), a message from the status text
  when the body does not parse or has no truthy \<open>detail\<close> (a number that is zero as a
  double among them).
\<close>

theorem null_error_body_TypeError:
  "snd (uploadCSV
          \<lparr> numberToString = (\<lambda>m e. js ''0''), toLocaleTimeString = (\<lambda>ts. js ''12:00:00'') \<rparr>
          \<lparr> PYTHON_BACKEND_URL = Some (js ''http://backend:8000''),
            SHOPIFY_STORE_URL = Some (js ''shop.example''), SHOPIFY_SHOP_URL = None,
            SHOPIFY_ACCESS_TOKEN = Some (js ''shpat_1''),
            NEXT_PUBLIC_N8N_WEBHOOK_URL = None \<rparr>
          (\<lambda>rq. Inr \<lparr> status = 500, statusText = js ''Internal Server Error'',
                       json_body = Inr JNull, text_body = Inr (js ''null'') \<rparr>)
          (FileValue \<lparr> file_name = js ''products.csv'', file_size = 120 \<rparr>))
     = Inl (TypeError (js ''Cannot read properties of null (reading 'detail')''))
   \<and> snd (pushToShopify
          \<lparr> numberToString = (\<lambda>m e. js ''0''), toLocaleTimeString = (\<lambda>ts. js ''12:00:00'') \<rparr>
          \<lparr> PYTHON_BACKEND_URL = Some (js ''http://backend:8000''),
            SHOPIFY_STORE_URL = Some (js ''shop.example''), SHOPIFY_SHOP_URL = None,
            SHOPIFY_ACCESS_TOKEN = Some (js ''shpat_1''),
            NEXT_PUBLIC_N8N_WEBHOOK_URL = None \<rparr>
          (\<lambda>rq. Inr \<lparr> status = 500, statusText = js ''Internal Server Error'',
                       json_body = Inr JNull, text_body = Inr (js ''null'') \<rparr>))
     = Inl (TypeError (js ''Cannot read properties of null (reading 'detail')''))
   \<and> \<not> js_includes (js ''Cannot read properties of null (reading 'detail')'')
         (js ''Internal Server Error'')"
proof -
  have e: "null_read_error (js ''detail'')
             = TypeError (js ''Cannot read properties of null (reading 'detail')'')"
    by (simp add: null_read_error_def js_def)
  have n: "\<not> js_includes (js ''Cannot read properties of null (reading 'detail')'')
         (js ''Internal Server Error'')"
    by (simp add: js_def)
  have s: "is_set (Some (js ''http://backend:8000'')) \<and> is_set (Some (js ''shop.example''))
         \<and> is_set (Some (js ''shpat_1''))"
    by (simp add: is_set_def js_def)
  show ?thesis
    using s n
    by (simp add: uploadCSV_def pushToShopify_def Let_def env_or_def ok_def
        error_of_response_def e [symmetric])
qed

section \<open>Claims about the webhook proxy\<close>

lemma fst_proxy_forward:
  "fst (proxy_forward fetch url headers payload)
     = [\<lparr> req_url = url, req_method = js ''POST'', req_headers = headers,
          req_body = payload \<rparr>]"
proof -
  let ?rq = "\<lparr> req_url = url, req_method = js ''POST'', req_headers = headers,
               req_body = payload \<rparr>"
  show ?thesis
  proof (cases "fetch ?rq")
    case (Inl e)
    then show ?thesis by (simp add: proxy_forward_def Let_def)
  next
    case (Inr r)
    show ?thesis
    proof (cases "ok r")
      case True
      with Inr show ?thesis by (simp add: proxy_forward_def Let_def)
    next
      case False
      show ?thesis
      proof (cases "text_body r")
        case (Inl e)
        with Inr False show ?thesis by (simp add: proxy_forward_def Let_def)
      next
        case errorText: (Inr t)
        show ?thesis
        proof (cases "NextResponse_json
                        (JObject [(js ''error'',
                           JString (js ''N8n responded with '' @ digit_string (status r)
                                    @ js '': '' @ t))])
                        (status r)")
          case (Inl e)
          with Inr False errorText show ?thesis by (simp add: proxy_forward_def Let_def)
        next
          case answer: (Inr a)
          with Inr False errorText show ?thesis by (simp add: proxy_forward_def Let_def)
        qed
      qed
    qed
  qed
qed

text \<open>
  The answer to a destination status other than 2xx: the status is passed on with the
  error text, except where \<open>NextResponse.json\<close> refuses the status, as it does for
  \<open>304\<close>; then the handler's \<open>catch\<close> answers \<open>500\<close>.
\<close>

lemma proxy_forward_error_status:
  assumes "fetch \<lparr> req_url = u, req_method = js ''POST'', req_headers = hs, req_body = p \<rparr>
             = Inr r"
    and "300 \<le> status r" and "status r \<le> 599" and "status r \<noteq> 304"
    and "text_body r = Inr t"
  shows "snd (proxy_forward fetch u hs p)
           = \<lparr> nr_data = JObject [(js ''error'',
                   JString (js ''N8n responded with '' @ digit_string (status r)
                            @ js '': '' @ t))],
               nr_status = status r \<rparr>"
proof -
  have n: "NextResponse_json d (status r) = Inr \<lparr> nr_data = d, nr_status = status r \<rparr>" for d
    using assms(2-4) by (simp add: NextResponse_json_def null_body_status_def)
  have o: "\<not> ok r" using assms(2) by (simp add: ok_def)
  show ?thesis
    using assms(1,5) o by (simp add: proxy_forward_def Let_def n)
qed

lemma proxy_forward_not_modified:
  assumes "fetch \<lparr> req_url = u, req_method = js ''POST'', req_headers = hs, req_body = p \<rparr>
             = Inr r"
    and "status r = 304" and "text_body r = Inr t"
  shows "snd (proxy_forward fetch u hs p)
           = \<lparr> nr_data = JObject [(js ''error'',
                   JString (js ''Response constructor: Invalid response status code 304''))],
               nr_status = 500 \<rparr>"
proof -
  have n: "NextResponse_json d 304
             = Inl (TypeError (js ''Response constructor: Invalid response status code 304''))"
    for d
    by (simp add: NextResponse_json_def null_body_status_def js_def)
  have o: "\<not> ok r" using assms(2) by (simp add: ok_def)
  have c: "proxy_caught (TypeError (js ''Response constructor: Invalid response status code 304''))
             = \<lparr> nr_data = JObject [(js ''error'',
                   JString (js ''Response constructor: Invalid response status code 304''))],
               nr_status = 500 \<rparr>"
    by (simp add: proxy_caught_def js_def)
  show ?thesis
    using assms o by (simp add: proxy_forward_def Let_def n c)
qed

text \<open>
  C9. With the webhook URL configured, a request whose content type holds
  \<open>multipart/form-data\<close> and whose form can be read is forwarded with its form as the
  body and an empty header map; any other request whose body can be read as JSON is
  forwarded re-serialised under the header \<open>Content-Type: application/json\<close>. Whatever
  the request, nothing else is ever forwarded.
\<close>

theorem proxy_forward_headers:
  "(is_set (NEXT_PUBLIC_N8N_WEBHOOK_URL ev)
      \<and> js_includes (contentType request) (js ''multipart/form-data'')
      \<and> pr_formData request = Inr formData \<longrightarrow>
      fst (POST ev fetch request)
        = [\<lparr> req_url = the (NEXT_PUBLIC_N8N_WEBHOOK_URL ev), req_method = js ''POST'',
             req_headers = [], req_body = FormBody formData \<rparr>])
   \<and> (is_set (NEXT_PUBLIC_N8N_WEBHOOK_URL ev)
      \<and> \<not> js_includes (contentType request) (js ''multipart/form-data'')
      \<and> pr_json request = Inr v \<longrightarrow>
      fst (POST ev fetch request)
        = [\<lparr> req_url = the (NEXT_PUBLIC_N8N_WEBHOOK_URL ev), req_method = js ''POST'',
             req_headers = [(js ''Content-Type'', js ''application/json'')],
             req_body = JsonText v \<rparr>])
   \<and> (\<forall>rq \<in> set (fst (POST ev fetch request)).
        if js_includes (contentType request) (js ''multipart/form-data'')
        then req_headers rq = []
             \<and> (\<exists>fd. req_body rq = FormBody fd \<and> pr_formData request = Inr fd)
        else req_headers rq = [(js ''Content-Type'', js ''application/json'')]
             \<and> (\<exists>j. req_body rq = JsonText j \<and> pr_json request = Inr j))"
proof (intro conjI impI ballI)
  assume "is_set (NEXT_PUBLIC_N8N_WEBHOOK_URL ev)
      \<and> js_includes (contentType request) (js ''multipart/form-data'')
      \<and> pr_formData request = Inr formData"
  then show "fst (POST ev fetch request)
        = [\<lparr> req_url = the (NEXT_PUBLIC_N8N_WEBHOOK_URL ev), req_method = js ''POST'',
             req_headers = [], req_body = FormBody formData \<rparr>]"
    by (simp add: POST_def Let_def fst_proxy_forward)
next
  assume "is_set (NEXT_PUBLIC_N8N_WEBHOOK_URL ev)
      \<and> \<not> js_includes (contentType request) (js ''multipart/form-data'')
      \<and> pr_json request = Inr v"
  then show "fst (POST ev fetch request)
        = [\<lparr> req_url = the (NEXT_PUBLIC_N8N_WEBHOOK_URL ev), req_method = js ''POST'',
             req_headers = [(js ''Content-Type'', js ''application/json'')],
             req_body = JsonText v \<rparr>]"
    by (simp add: POST_def Let_def fst_proxy_forward)
next
  fix rq
  assume rq: "rq \<in> set (fst (POST ev fetch request))"
  show "if js_includes (contentType request) (js ''multipart/form-data'')
        then req_headers rq = []
             \<and> (\<exists>fd. req_body rq = FormBody fd \<and> pr_formData request = Inr fd)
        else req_headers rq = [(js ''Content-Type'', js ''application/json'')]
             \<and> (\<exists>j. req_body rq = JsonText j \<and> pr_json request = Inr j)"
  proof (cases "js_includes (contentType request) (js ''multipart/form-data'')")
    case True
    with rq show ?thesis
      by (auto simp add: POST_def Let_def fst_proxy_forward split: if_splits sum.splits)
  next
    case False
    with rq show ?thesis
      by (auto simp add: POST_def Let_def fst_proxy_forward split: if_splits sum.splits)
  qed
qed

theorem proxy_forward_headers_witness:
  "is_set (Some (js ''http://n8n/webhook''))
   \<and> js_includes (contentType \<lparr> content_type = Some (js ''multipart/form-data; boundary=x''),
          pr_formData = Inr [(js ''file'', FileValue \<lparr> file_name = js ''a.csv'', file_size = 3 \<rparr>)],
          pr_json = Inl (SyntaxError (js ''Unexpected token'')) \<rparr>) (js ''multipart/form-data'')
   \<and> fst (POST \<lparr> PYTHON_BACKEND_URL = None, SHOPIFY_STORE_URL = None, SHOPIFY_SHOP_URL = None,
                 SHOPIFY_ACCESS_TOKEN = None,
                 NEXT_PUBLIC_N8N_WEBHOOK_URL = Some (js ''http://n8n/webhook'') \<rparr>
            (\<lambda>rq. Inl (TypeError (js ''fetch failed'')))
            \<lparr> content_type = Some (js ''multipart/form-data; boundary=x''),
              pr_formData = Inr [(js ''file'', FileValue \<lparr> file_name = js ''a.csv'', file_size = 3 \<rparr>)],
              pr_json = Inl (SyntaxError (js ''Unexpected token'')) \<rparr>)
     = [\<lparr> req_url = js ''http://n8n/webhook'', req_method = js ''POST'', req_headers = [],
          req_body = FormBody [(js ''file'', FileValue \<lparr> file_name = js ''a.csv'', file_size = 3 \<rparr>)] \<rparr>]
   \<and> \<not> js_includes (contentType \<lparr> content_type = Some (js ''application/json''),
          pr_formData = Inl (TypeError (js ''not a form'')),
          pr_json = Inr (JObject [(js ''a'', JBool True)]) \<rparr>) (js ''multipart/form-data'')
   \<and> fst (POST \<lparr> PYTHON_BACKEND_URL = None, SHOPIFY_STORE_URL = None, SHOPIFY_SHOP_URL = None,
                 SHOPIFY_ACCESS_TOKEN = None,
                 NEXT_PUBLIC_N8N_WEBHOOK_URL = Some (js ''http://n8n/webhook'') \<rparr>
            (\<lambda>rq. Inl (TypeError (js ''fetch failed'')))
            \<lparr> content_type = Some (js ''application/json''),
              pr_formData = Inl (TypeError (js ''not a form'')),
              pr_json = Inr (JObject [(js ''a'', JBool True)]) \<rparr>)
     = [\<lparr> req_url = js ''http://n8n/webhook'', req_method = js ''POST'',
          req_headers = [(js ''Content-Type'', js ''application/json'')],
          req_body = JsonText (JObject [(js ''a'', JBool True)]) \<rparr>]"
proof -
  let ?ev = "\<lparr> PYTHON_BACKEND_URL = None, SHOPIFY_STORE_URL = None, SHOPIFY_SHOP_URL = None,
                 SHOPIFY_ACCESS_TOKEN = None,
                 NEXT_PUBLIC_N8N_WEBHOOK_URL = Some (js ''http://n8n/webhook'') \<rparr>"
  let ?fetch = "\<lambda>rq :: request. (Inl (TypeError (js ''fetch failed'')) :: js_error + response)"
  let ?form = "[(js ''file'', FileValue \<lparr> file_name = js ''a.csv'', file_size = 3 \<rparr>)]"
  let ?multi = "\<lparr> content_type = Some (js ''multipart/form-data; boundary=x''),
          pr_formData = Inr ?form,
          pr_json = Inl (SyntaxError (js ''Unexpected token'')) \<rparr>"
  let ?json = "\<lparr> content_type = Some (js ''application/json''),
          pr_formData = Inl (TypeError (js ''not a form'')),
          pr_json = Inr (JObject [(js ''a'', JBool True)]) \<rparr>"
  have u: "is_set (Some (js ''http://n8n/webhook''))" by (simp add: is_set_def js_def)
  have m: "js_includes (contentType ?multi) (js ''multipart/form-data'')"
    by (simp add: contentType_def js_def)
  have j: "\<not> js_includes (contentType ?json) (js ''multipart/form-data'')"
    by (simp add: contentType_def js_def)
  from proxy_forward_headers [of ?ev ?multi ?form ?fetch] u m
  have 1: "fst (POST ?ev ?fetch ?multi)
     = [\<lparr> req_url = js ''http://n8n/webhook'', req_method = js ''POST'', req_headers = [],
          req_body = FormBody ?form \<rparr>]"
    by simp
  from proxy_forward_headers [of ?ev ?json _ ?fetch "JObject [(js ''a'', JBool True)]"] u j
  have 2: "fst (POST ?ev ?fetch ?json)
     = [\<lparr> req_url = js ''http://n8n/webhook'', req_method = js ''POST'',
          req_headers = [(js ''Content-Type'', js ''application/json'')],
          req_body = JsonText (JObject [(js ''a'', JBool True)]) \<rparr>]"
    by simp
  from u m j 1 2 show ?thesis by (simp only: simp_thms)
qed

section \<open>Claims about the route actions\<close>

lemma action_catch_total: "\<exists>r. action_catch x = Inr r"
  by (cases x) (simp_all add: action_catch_def)

text \<open>
  C10, as the code has it. The action of the public route, and the action of the
  embedded route once authentication has passed, always return a value; an error from
  reading the form, from \<open>uploadCSV\<close> or from \<open>pushToShopify\<close> comes back as
  \<open>{status: "error", message}\<close> with that error's message, and an action type other than
  \<open>upload\<close> and \<open>push\<close> as \<open>{status: "error", message: "Invalid action"}\<close>.
\<close>

theorem action_errors_returned:
  "(\<exists>r. UploadCSVPublic_action pf ev fetch fd = Inr r)
   \<and> (\<exists>r. Index_action pf ev fetch now None fd = Inr r)
   \<and> (fd = Inl e \<longrightarrow>
        UploadCSVPublic_action pf ev fetch fd
          = Inr \<lparr> ar_action = None, ar_status = js ''error'', ar_message = message e,
                  ar_data = None, ar_timestamp = None \<rparr>
      \<and> Index_action pf ev fetch now None fd = UploadCSVPublic_action pf ev fetch fd)
   \<and> (fd = Inr formData
        \<and> form_get formData (js ''actionType'') = Some (TextValue (js ''upload''))
        \<and> \<not> no_file (form_get formData (js ''file''))
        \<and> snd (uploadCSV pf ev fetch (the (form_get formData (js ''file'')))) = Inl e \<longrightarrow>
        UploadCSVPublic_action pf ev fetch fd
          = Inr \<lparr> ar_action = None, ar_status = js ''error'', ar_message = message e,
                  ar_data = None, ar_timestamp = None \<rparr>
      \<and> Index_action pf ev fetch now None fd = UploadCSVPublic_action pf ev fetch fd)
   \<and> (fd = Inr formData
        \<and> form_get formData (js ''actionType'') = Some (TextValue (js ''push''))
        \<and> snd (pushToShopify pf ev fetch) = Inl e \<longrightarrow>
        UploadCSVPublic_action pf ev fetch fd
          = Inr \<lparr> ar_action = None, ar_status = js ''error'', ar_message = message e,
                  ar_data = None, ar_timestamp = None \<rparr>
      \<and> Index_action pf ev fetch now None fd = UploadCSVPublic_action pf ev fetch fd)
   \<and> (fd = Inr formData
        \<and> form_get formData (js ''actionType'') \<noteq> Some (TextValue (js ''upload''))
        \<and> form_get formData (js ''actionType'') \<noteq> Some (TextValue (js ''push'')) \<longrightarrow>
        UploadCSVPublic_action pf ev fetch fd
          = Inr \<lparr> ar_action = None, ar_status = js ''error'',
                  ar_message = Some (js ''Invalid action''),
                  ar_data = None, ar_timestamp = None \<rparr>
      \<and> Index_action pf ev fetch now None fd = UploadCSVPublic_action pf ev fetch fd)"
proof -
  have neq: "js ''upload'' \<noteq> js ''push''" by (simp add: js_def)
  have a: "\<exists>r. UploadCSVPublic_action pf ev fetch fd = Inr r"
    unfolding UploadCSVPublic_action_def by (rule action_catch_total)
  have b: "\<exists>r. Index_action pf ev fetch now None fd = Inr r"
    unfolding Index_action_def by (simp add: action_catch_total)
  have c: "fd = Inl e \<longrightarrow>
        UploadCSVPublic_action pf ev fetch fd
          = Inr \<lparr> ar_action = None, ar_status = js ''error'', ar_message = message e,
                  ar_data = None, ar_timestamp = None \<rparr>
      \<and> Index_action pf ev fetch now None fd = UploadCSVPublic_action pf ev fetch fd"
    by (simp add: UploadCSVPublic_action_def Index_action_def action_catch_def action_try_def)
  have d: "fd = Inr formData
        \<and> form_get formData (js ''actionType'') = Some (TextValue (js ''upload''))
        \<and> \<not> no_file (form_get formData (js ''file''))
        \<and> snd (uploadCSV pf ev fetch (the (form_get formData (js ''file'')))) = Inl e \<longrightarrow>
        UploadCSVPublic_action pf ev fetch fd
          = Inr \<lparr> ar_action = None, ar_status = js ''error'', ar_message = message e,
                  ar_data = None, ar_timestamp = None \<rparr>
      \<and> Index_action pf ev fetch now None fd = UploadCSVPublic_action pf ev fetch fd"
    by (simp add: UploadCSVPublic_action_def Index_action_def action_catch_def action_try_def Let_def)
  have e: "fd = Inr formData
        \<and> form_get formData (js ''actionType'') = Some (TextValue (js ''push''))
        \<and> snd (pushToShopify pf ev fetch) = Inl e \<longrightarrow>
        UploadCSVPublic_action pf ev fetch fd
          = Inr \<lparr> ar_action = None, ar_status = js ''error'', ar_message = message e,
                  ar_data = None, ar_timestamp = None \<rparr>
      \<and> Index_action pf ev fetch now None fd = UploadCSVPublic_action pf ev fetch fd"
    using neq
    by (auto simp add: UploadCSVPublic_action_def Index_action_def action_catch_def action_try_def Let_def)
  have f: "fd = Inr formData
        \<and> form_get formData (js ''actionType'') \<noteq> Some (TextValue (js ''upload''))
        \<and> form_get formData (js ''actionType'') \<noteq> Some (TextValue (js ''push'')) \<longrightarrow>
        UploadCSVPublic_action pf ev fetch fd
          = Inr \<lparr> ar_action = None, ar_status = js ''error'',
                  ar_message = Some (js ''Invalid action''),
                  ar_data = None, ar_timestamp = None \<rparr>
      \<and> Index_action pf ev fetch now None fd = UploadCSVPublic_action pf ev fetch fd"
    by (simp add: UploadCSVPublic_action_def Index_action_def action_catch_def action_try_def Let_def)
  from a b c d e f show ?thesis by (simp only: simp_thms)
qed

theorem action_errors_returned_witness:
  "form_get [(js ''actionType'', TextValue (js ''push''))] (js ''actionType'')
     = Some (TextValue (js ''push''))
   \<and> snd (pushToShopify
          \<lparr> numberToString = (\<lambda>m e. js ''0''), toLocaleTimeString = (\<lambda>ts. js ''12:00:00'') \<rparr>
          \<lparr> PYTHON_BACKEND_URL = None, SHOPIFY_STORE_URL = None, SHOPIFY_SHOP_URL = None,
            SHOPIFY_ACCESS_TOKEN = None, NEXT_PUBLIC_N8N_WEBHOOK_URL = None \<rparr>
          (\<lambda>rq. Inl (TypeError (js ''fetch failed''))))
     = Inl (Error (js ''PYTHON_BACKEND_URL is not set''))
   \<and> UploadCSVPublic_action
          \<lparr> numberToString = (\<lambda>m e. js ''0''), toLocaleTimeString = (\<lambda>ts. js ''12:00:00'') \<rparr>
          \<lparr> PYTHON_BACKEND_URL = None, SHOPIFY_STORE_URL = None, SHOPIFY_SHOP_URL = None,
            SHOPIFY_ACCESS_TOKEN = None, NEXT_PUBLIC_N8N_WEBHOOK_URL = None \<rparr>
          (\<lambda>rq. Inl (TypeError (js ''fetch failed'')))
          (Inr [(js ''actionType'', TextValue (js ''push''))])
     = Inr \<lparr> ar_action = None, ar_status = js ''error'',
             ar_message = Some (js ''PYTHON_BACKEND_URL is not set''),
             ar_data = None, ar_timestamp = None \<rparr>
   \<and> Index_action
          \<lparr> numberToString = (\<lambda>m e. js ''0''), toLocaleTimeString = (\<lambda>ts. js ''12:00:00'') \<rparr>
          \<lparr> PYTHON_BACKEND_URL = None, SHOPIFY_STORE_URL = None, SHOPIFY_SHOP_URL = None,
            SHOPIFY_ACCESS_TOKEN = None, NEXT_PUBLIC_N8N_WEBHOOK_URL = None \<rparr>
          (\<lambda>rq. Inl (TypeError (js ''fetch failed''))) 0 None
          (Inr [(js ''actionType'', TextValue (js ''push''))])
     = Inr \<lparr> ar_action = None, ar_status = js ''error'',
             ar_message = Some (js ''PYTHON_BACKEND_URL is not set''),
             ar_data = None, ar_timestamp = None \<rparr>"
proof -
  let ?pf = "\<lparr> numberToString = (\<lambda>m e. js ''0''),
               toLocaleTimeString = (\<lambda>ts. js ''12:00:00'') \<rparr>"
  let ?ev = "\<lparr> PYTHON_BACKEND_URL = None, SHOPIFY_STORE_URL = None, SHOPIFY_SHOP_URL = None,
            SHOPIFY_ACCESS_TOKEN = None, NEXT_PUBLIC_N8N_WEBHOOK_URL = None \<rparr>"
  let ?fetch = "\<lambda>rq :: request. (Inl (TypeError (js ''fetch failed'')) :: js_error + response)"
  let ?form = "[(js ''actionType'', TextValue (js ''push''))]"
  have g: "form_get ?form (js ''actionType'') = Some (TextValue (js ''push''))"
    by (simp add: form_get_def)
  have p: "snd (pushToShopify ?pf ?ev ?fetch) = Inl (Error (js ''PYTHON_BACKEND_URL is not set''))"
    by (simp add: pushToShopify_def Let_def is_set_def)
  from action_errors_returned [of ?pf ?ev ?fetch "Inr ?form" 0
      "Error (js ''PYTHON_BACKEND_URL is not set'')" ?form] g p
  show ?thesis by simp
qed

text \<open>
  The embedded route awaits \<open>authenticate.admin(request)\<close> before its \<open>try\<close>: what that
  call throws (here a redirect response) leaves the action.
\<close>

theorem Index_action_auth_counterexample:
  "Index_action
     \<lparr> numberToString = (\<lambda>m e. js ''0''), toLocaleTimeString = (\<lambda>ts. js ''12:00:00'') \<rparr>
     \<lparr> PYTHON_BACKEND_URL = Some (js ''http://backend:8000''),
       SHOPIFY_STORE_URL = Some (js ''shop.example''), SHOPIFY_SHOP_URL = None,
       SHOPIFY_ACCESS_TOKEN = Some (js ''shpat_1''), NEXT_PUBLIC_N8N_WEBHOOK_URL = None \<rparr>
     (\<lambda>rq. Inl (TypeError (js ''fetch failed''))) 0 (Some (ThrownResponse 302))
     (Inr [(js ''actionType'', TextValue (js ''push''))])
   = Inl (ThrownResponse 302)"
  by (simp add: Index_action_def)

end
